theory Spec2Isabelle
  imports Complex_Main "HOL-Library.Word"
begin

unbundle bit_operations_syntax

text \<open>
  A shallow embedding of \<^verbatim>\<open>gameplay/src/HeightField.cpp\<close>: the elevation grid with
  its bilinear sampling \<^verbatim>\<open>getHeight\<close>, the packed-channel decoder
  \<^verbatim>\<open>normalizedHeightPacked\<close>, and \<^verbatim>\<open>create\<close>, which loads a grid from a decoded image
  or from a headerless RAW file.  The definitions follow the source line by line;
  \<^verbatim>\<open>float\<close> arithmetic is binary32 arithmetic, with its rounding, infinities and
  NaN; undefined behaviour (a conversion out of range, an access outside a buffer,
  a division by zero) and a failed assertion are error results.
\<close>

section \<open>Machine types of HeightField.cpp\<close>

text \<open>
  \<^verbatim>\<open>unsigned int\<close> and \<^verbatim>\<open>int\<close> are 32-bit words (\<open>+\<close>, \<open>-\<close>, \<open>*\<close> wrap; \<open>unat\<close>
  reads a word as unsigned, \<open>sint\<close> as two's complement), \<^verbatim>\<open>unsigned char\<close> is an
  8-bit word.

  A \<^verbatim>\<open>float\<close> is an IEEE 754 binary32 value: a finite number, an infinity or a
  NaN.  The finite values are embedded in the reals: \<open>Finite r\<close> is a \<^verbatim>\<open>float\<close> when
  \<open>r\<close> is a binary32 number, and the operations below return such values.  The sign
  of a zero is not kept: \<^verbatim>\<open>-0.0f\<close> and \<^verbatim>\<open>0.0f\<close> are the one value \<open>Finite 0\<close> (they
  compare equal and convert to the same integer; only a division by zero tells them
  apart, and every divisor of this file is a constant other than zero).  A NaN
  carries no payload.
\<close>

type_synonym uint = "32 word"
type_synonym cint = "32 word"
type_synonym uchar = "8 word"

datatype float = Finite real | PosInf | NegInf | NaN

datatype error =
    UndefinedConversion
  | OutOfBoundsRead
  | OutOfBoundsWrite
  | DivisionByZero
  | AssertionFailed

text \<open>
  \<^verbatim>\<open>a < b\<close> and \<^verbatim>\<open>a >= b\<close> on floats: every comparison with a NaN is false.
\<close>

fun float_less :: "float \<Rightarrow> float \<Rightarrow> bool" where
  "float_less NaN _ = False"
| "float_less _ NaN = False"
| "float_less (Finite a) (Finite b) = (a < b)"
| "float_less NegInf NegInf = False"
| "float_less NegInf _ = True"
| "float_less _ NegInf = False"
| "float_less PosInf _ = False"
| "float_less _ PosInf = True"

definition float_ge :: "float \<Rightarrow> float \<Rightarrow> bool" where
  "float_ge a b \<longleftrightarrow> float_less b a \<or> (a = b \<and> a \<noteq> NaN)"

text \<open>
  Rounding of a real to binary32, to the nearest value and at a tie to the one with
  the even significand.  Every binary32 value is a multiple of \<open>2\<^sup>-\<^sup>1\<^sup>4\<^sup>9\<close>, the
  smallest positive one, so the magnitude is taken in that unit: \<open>a\<close>.  A
  significand has 24 bits; when the integer part of \<open>a\<close> has more, the \<open>e\<close> bits
  beyond 24 are rounded away, and otherwise (a subnormal value or one of the
  smallest exponent) \<open>a\<close> is rounded to an integer.  The result overflows to an
  infinity when it reaches \<open>2\<^sup>1\<^sup>2\<^sup>8\<close>, which is \<open>2\<^sup>2\<^sup>7\<^sup>7\<close> units.
\<close>

fun bit_length :: "nat \<Rightarrow> nat" where
  "bit_length n = (if n = 0 then 0 else Suc (bit_length (n div 2)))"

declare bit_length.simps [simp del]

definition round_half_even :: "real \<Rightarrow> int" where
  "round_half_even x =
     (let n = \<lfloor>x\<rfloor>; d = x - of_int n
      in if d < 1 / 2 \<or> (d = 1 / 2 \<and> even n) then n else n + 1)"

definition round_to_binary32 :: "real \<Rightarrow> float" where
  "round_to_binary32 x =
     (let a = \<bar>x\<bar> * 2 ^ 149;
          e = bit_length (nat \<lfloor>a\<rfloor>) - 24;
          m = round_half_even (a / 2 ^ e) * 2 ^ e
      in if 2 ^ 277 \<le> m then (if x < 0 then NegInf else PosInf)
         else Finite (sgn x * of_int m / 2 ^ 149))"

text \<open>
  The arithmetic of \<^verbatim>\<open>float\<close> expressions: each operation returns the exact result
  rounded to binary32 (no wider intermediate format and no fused multiply-add);
  a NaN operand gives a NaN, and so do \<open>\<infinity> - \<infinity>\<close>, \<open>0 * \<infinity>\<close>, \<open>0 / 0\<close> and
  \<open>\<infinity> / \<infinity>\<close>.
\<close>

fun fneg :: "float \<Rightarrow> float" where
  "fneg (Finite a) = Finite (- a)"
| "fneg PosInf = NegInf"
| "fneg NegInf = PosInf"
| "fneg NaN = NaN"

fun fadd :: "float \<Rightarrow> float \<Rightarrow> float" where
  "fadd NaN _ = NaN"
| "fadd _ NaN = NaN"
| "fadd (Finite a) (Finite b) = round_to_binary32 (a + b)"
| "fadd PosInf NegInf = NaN"
| "fadd NegInf PosInf = NaN"
| "fadd PosInf _ = PosInf"
| "fadd _ PosInf = PosInf"
| "fadd NegInf _ = NegInf"
| "fadd _ NegInf = NegInf"

definition fsub :: "float \<Rightarrow> float \<Rightarrow> float" where
  "fsub a b = fadd a (fneg b)"

fun fmul :: "float \<Rightarrow> float \<Rightarrow> float" where
  "fmul NaN _ = NaN"
| "fmul _ NaN = NaN"
| "fmul (Finite a) (Finite b) = round_to_binary32 (a * b)"
| "fmul (Finite a) b = (if a = 0 then NaN else if 0 < a then b else fneg b)"
| "fmul a (Finite b) = (if b = 0 then NaN else if 0 < b then a else fneg a)"
| "fmul PosInf b = b"
| "fmul NegInf b = fneg b"

fun fdiv :: "float \<Rightarrow> float \<Rightarrow> float" where
  "fdiv NaN _ = NaN"
| "fdiv _ NaN = NaN"
| "fdiv (Finite a) (Finite b) =
     (if b = 0 then (if a = 0 then NaN else if 0 < a then PosInf else NegInf)
      else round_to_binary32 (a / b))"
| "fdiv (Finite a) _ = Finite 0"
| "fdiv a (Finite b) = (if 0 \<le> b then a else fneg a)"
| "fdiv _ _ = NaN"

text \<open>
  Conversion of an \<^verbatim>\<open>unsigned int\<close> to \<^verbatim>\<open>float\<close>.  A binary32 significand has 24
  bits, so an integer of more than 24 bits is rounded to a multiple of
  \<open>2 ^ (bits - 24)\<close>: to the nearest one, a tie to the one with the even quotient.
\<close>

definition round_nearest_even :: "nat \<Rightarrow> nat \<Rightarrow> nat" where
  "round_nearest_even e n =
     (let q = n div 2 ^ e; r = n mod 2 ^ e
      in if 2 * r < 2 ^ e \<or> (2 * r = 2 ^ e \<and> even q) then q * 2 ^ e else (q + 1) * 2 ^ e)"

definition round_to_float :: "nat \<Rightarrow> nat" where
  "round_to_float n = round_nearest_even (bit_length n - 24) n"

definition uint_to_float :: "uint \<Rightarrow> float" where
  "uint_to_float w = Finite (real (round_to_float (unat w)))"

text \<open>Conversion of an \<^verbatim>\<open>int\<close> to \<^verbatim>\<open>float\<close>.\<close>

definition int_to_float :: "cint \<Rightarrow> float" where
  "int_to_float i = round_to_binary32 (real_of_int (sint i))"

text \<open>
  Conversion of a \<^verbatim>\<open>float\<close> to \<^verbatim>\<open>unsigned int\<close> truncates towards zero; the
  behaviour is undefined when the truncated value is not an \<^verbatim>\<open>unsigned int\<close>
  (in particular for a NaN or an infinity).
\<close>

definition truncate_real :: "real \<Rightarrow> int" where
  "truncate_real r = (if 0 \<le> r then \<lfloor>r\<rfloor> else \<lceil>r\<rceil>)"

fun float_to_uint :: "float \<Rightarrow> error + uint" where
  "float_to_uint (Finite r) =
     (if 0 \<le> truncate_real r \<and> truncate_real r < 2 ^ 32
      then Inr (word_of_int (truncate_real r)) else Inl UndefinedConversion)"
| "float_to_uint _ = Inl UndefinedConversion"

text \<open>
  \<^verbatim>\<open>modf(x, &tmp)\<close> returns the fractional part of \<open>x\<close>, with the sign of \<open>x\<close>: the
  fractional part of a binary32 value is a binary32 value, so nothing is rounded.
  The fractional part of an infinity is zero, that of a NaN is a NaN.
\<close>

fun modf :: "float \<Rightarrow> float" where
  "modf (Finite r) = Finite (r - of_int (truncate_real r))"
| "modf PosInf = Finite 0"
| "modf NegInf = Finite 0"
| "modf NaN = NaN"

section \<open>The elevation grid\<close>

record HeightField =
  hf_array :: "float list"
  hf_cols :: uint
  hf_rows :: uint

text \<open>\<^verbatim>\<open>_array[i]\<close> with an \<^verbatim>\<open>unsigned int\<close> index; a read past the buffer is an error.\<close>

definition array_read :: "'a list \<Rightarrow> uint \<Rightarrow> error + 'a" where
  "array_read a i = (if unat i < length a then Inr (a ! unat i) else Inl OutOfBoundsRead)"

text \<open>
  \<^verbatim>\<open>HeightField::HeightField(columns, rows)\<close>: \<^verbatim>\<open>new float[columns * rows]\<close>, the
  product taken in \<^verbatim>\<open>unsigned int\<close>.  The content of the fresh buffer is not
  initialised; \<open>fresh\<close> is what the allocator happens to supply.
\<close>

definition HeightField_new :: "(nat \<Rightarrow> float) \<Rightarrow> uint \<Rightarrow> uint \<Rightarrow> HeightField" where
  "HeightField_new fresh columns rows =
     \<lparr> hf_array = map fresh [0 ..< unat (columns * rows)], hf_cols = columns, hf_rows = rows \<rparr>"

definition getArray :: "HeightField \<Rightarrow> float list" where
  "getArray hf = hf_array hf"

definition getColumnCount :: "HeightField \<Rightarrow> uint" where
  "getColumnCount hf = hf_cols hf"

definition getRowCount :: "HeightField \<Rightarrow> uint" where
  "getRowCount hf = hf_rows hf"

text \<open>The clamp of lines 180 and 181, \<^verbatim>\<open>v < 0 ? 0 : (v > (n-1) ? (n-1) : v)\<close>.\<close>

definition clamp_coord :: "float \<Rightarrow> uint \<Rightarrow> float" where
  "clamp_coord v n =
     (if float_less v (Finite 0) then Finite 0
      else if float_less (uint_to_float (n - 1)) v then uint_to_float (n - 1)
      else v)"

text \<open>
  \<^verbatim>\<open>getHeight\<close>, lines 177 to 214.  The weights and the blend are \<^verbatim>\<open>float\<close>
  expressions; a sum of four products is evaluated from the left.
\<close>

definition getHeight :: "HeightField \<Rightarrow> float \<Rightarrow> float \<Rightarrow> error + float" where
  "getHeight hf column0 row0 =
     (let cols = hf_cols hf; rows = hf_rows hf; a = hf_array hf;
          column = clamp_coord column0 cols;
          row = clamp_coord row0 rows
      in case float_to_uint column of Inl e \<Rightarrow> Inl e | Inr x1 \<Rightarrow>
        (case float_to_uint row of Inl e \<Rightarrow> Inl e | Inr y1 \<Rightarrow>
        (let x2 = x1 + 1; y2 = y1 + 1;
             xFactor = modf column;
             yFactor = modf row;
             xFactorI = fsub (Finite 1) xFactor;
             yFactorI = fsub (Finite 1) yFactor
         in if x2 \<ge> cols \<and> y2 \<ge> rows then
              array_read a (x1 + y1 * cols)
            else if x2 \<ge> cols then
              (case array_read a (x1 + y1 * cols) of Inl e \<Rightarrow> Inl e | Inr v11 \<Rightarrow>
              (case array_read a (x1 + y2 * cols) of Inl e \<Rightarrow> Inl e | Inr v12 \<Rightarrow>
               Inr (fadd (fmul v11 yFactorI) (fmul v12 yFactor))))
            else if y2 \<ge> rows then
              (case array_read a (x1 + y1 * cols) of Inl e \<Rightarrow> Inl e | Inr v11 \<Rightarrow>
              (case array_read a (x2 + y1 * cols) of Inl e \<Rightarrow> Inl e | Inr v21 \<Rightarrow>
               Inr (fadd (fmul v11 xFactorI) (fmul v21 xFactor))))
            else
              (let a' = fmul xFactorI yFactorI;
                   b = fmul xFactorI yFactor;
                   c = fmul xFactor yFactor;
                   d = fmul xFactor yFactorI
               in case array_read a (x1 + y1 * cols) of Inl e \<Rightarrow> Inl e | Inr v11 \<Rightarrow>
                 (case array_read a (x1 + y2 * cols) of Inl e \<Rightarrow> Inl e | Inr v12 \<Rightarrow>
                 (case array_read a (x2 + y2 * cols) of Inl e \<Rightarrow> Inl e | Inr v22 \<Rightarrow>
                 (case array_read a (x2 + y1 * cols) of Inl e \<Rightarrow> Inl e | Inr v21 \<Rightarrow>
                  Inr (fadd (fadd (fadd (fmul v11 a') (fmul v12 b)) (fmul v22 c))
                         (fmul v21 d)))))))))"

section \<open>The packed-channel height decoder\<close>

text \<open>
  Line 35, \<^verbatim>\<open>(256.0f*r + g + 0.00390625f*b) / 65536.0f\<close>, twice: as the \<^verbatim>\<open>float\<close>
  expression that the loader evaluates, and as the same expression over the reals.
  Every call passes three bytes, and on bytes no operation of the \<^verbatim>\<open>float\<close>
  expression rounds, so both have the same value there
  (lemma \<open>normalizedHeightPacked_exact\<close>).
\<close>

definition normalizedHeightPacked_binary32 :: "float \<Rightarrow> float \<Rightarrow> float \<Rightarrow> float" where
  "normalizedHeightPacked_binary32 r g b =
     fdiv (fadd (fadd (fmul (Finite 256) r) g) (fmul (Finite 0.00390625) b)) (Finite 65536)"

definition normalizedHeightPacked :: "real \<Rightarrow> real \<Rightarrow> real \<Rightarrow> real" where
  "normalizedHeightPacked r g b = (256 * r + g + 0.00390625 * b) / 65536"

text \<open>An \<^verbatim>\<open>unsigned char\<close> passed as a \<^verbatim>\<open>float\<close> argument: the conversion is exact.\<close>

definition uchar_to_float :: "uchar \<Rightarrow> real" where
  "uchar_to_float c = real (unat c)"


section \<open>The loaders\<close>

text \<open>
  \<^verbatim>\<open>data[idx]\<close> and \<^verbatim>\<open>heights[i]\<close> with an \<^verbatim>\<open>int\<close> index: the index is read as
  two's complement, and an access before or past the buffer is an error.  An
  \<^verbatim>\<open>int\<close> that has overflowed is negative here, so the overflow of an index shows
  as such an access error at its next use.
\<close>

definition array_read_int :: "'a list \<Rightarrow> cint \<Rightarrow> error + 'a" where
  "array_read_int a i =
     (if 0 \<le> sint i \<and> nat (sint i) < length a then Inr (a ! nat (sint i))
      else Inl OutOfBoundsRead)"

definition array_write_int :: "'a list \<Rightarrow> cint \<Rightarrow> 'a \<Rightarrow> error + 'a list" where
  "array_write_int a i v =
     (if 0 \<le> sint i \<and> nat (sint i) < length a then Inr (a[nat (sint i) := v])
      else Inl OutOfBoundsWrite)"

text \<open>
  The three loaders walk the grid with the same pair of loops,
  \<^verbatim>\<open>for (int y = height-1, i = 0; y >= 0; --y) for (unsigned int x = 0; x < w; ++x, ++i)\<close>
  with \<^verbatim>\<open>heights[i] = ...\<close> as body (the image loader writes \<^verbatim>\<open>heights[i++]\<close> instead
  of incrementing in the loop header).  \<open>fill_row\<close> is the inner loop from column
  \<open>x\<close> on, \<open>fill_rows\<close> the outer loop from row \<open>y\<close> down; \<open>cell y x\<close> is the
  right-hand side of the assignment, and the state is the buffer with the counter
  \<open>i\<close>.
\<close>

function fill_row ::
  "(cint \<Rightarrow> uint \<Rightarrow> error + float) \<Rightarrow> uint \<Rightarrow> cint \<Rightarrow> uint \<Rightarrow> float list \<times> cint
     \<Rightarrow> error + float list \<times> cint" where
  "fill_row cell w y x (heights, i) =
     (if x < w then
        (case cell y x of Inl e \<Rightarrow> Inl e | Inr v \<Rightarrow>
        (case array_write_int heights i v of Inl e \<Rightarrow> Inl e | Inr heights' \<Rightarrow>
           fill_row cell w y (x + 1) (heights', i + 1)))
      else Inr (heights, i))"
  by pat_completeness auto
termination
proof (relation "measure (\<lambda>(cell, w, y, x, st). unat w - unat x)")
  show "wf (measure (\<lambda>(cell, w, y, x, st). unat w - unat x))" by simp
next
  fix cell :: "cint \<Rightarrow> uint \<Rightarrow> error + float" and w x :: uint and y i :: cint
    and heights heights' :: "float list" and v :: float
  assume lt: "x < w"
  then have "unat x < unat w" by (simp add: word_less_nat_alt)
  moreover have "unat w < 2 ^ 32" using unsigned_less [of w, where 'a = nat] by simp
  ultimately have "unat (x + 1) = unat x + 1" by (simp add: unat_word_ariths)
  with \<open>unat x < unat w\<close>
  show "((cell, w, y, x + 1, heights', i + 1), (cell, w, y, x, heights, i))
          \<in> measure (\<lambda>(cell, w, y, x, st). unat w - unat x)"
    by simp
qed

function fill_rows ::
  "(cint \<Rightarrow> uint \<Rightarrow> error + float) \<Rightarrow> uint \<Rightarrow> cint \<Rightarrow> float list \<times> cint
     \<Rightarrow> error + float list \<times> cint" where
  "fill_rows cell w y st =
     (if 0 \<le>s y then
        (case fill_row cell w y 0 st of Inl e \<Rightarrow> Inl e | Inr st' \<Rightarrow>
           fill_rows cell w (y - 1) st')
      else Inr st)"
  by pat_completeness auto
termination
proof (relation "measure (\<lambda>(cell, w, y, st). nat (sint y + 1))")
  show "wf (measure (\<lambda>(cell, w, y, st). nat (sint y + 1)))" by simp
next
  fix cell :: "cint \<Rightarrow> uint \<Rightarrow> error + float" and w :: uint and y :: cint
    and st st' :: "float list \<times> cint"
  assume "0 \<le>s y"
  then have nonneg: "0 \<le> sint y" by (simp add: word_sle_eq)
  have "sint (y - 1) = sint y - 1"
    using nonneg sint_lt [of y] by (simp add: sint_word_ariths signed_take_bit_int_eq_self)
  with nonneg
  show "((cell, w, y - 1, st'), (cell, w, y, st)) \<in> measure (\<lambda>(cell, w, y, st). nat (sint y + 1))"
    by simp
qed

declare fill_row.simps [simp del] fill_rows.simps [simp del]

text \<open>
  The right-hand sides of the three loop bodies (lines 98--99, 145--146 and 157).
  A byte is promoted to \<^verbatim>\<open>int\<close>; the two bytes of a 16-bit sample are combined in
  \<^verbatim>\<open>int\<close> and the result is converted to \<^verbatim>\<open>float\<close> for the division.
\<close>

definition image_height ::
  "uchar list \<Rightarrow> uint \<Rightarrow> float \<Rightarrow> float \<Rightarrow> uint \<Rightarrow> cint \<Rightarrow> uint \<Rightarrow> error + float" where
  "image_height data pixelSize minHeight heightScale w y x =
     (let idx = (y * w + x) * pixelSize
      in case array_read_int data idx of Inl e \<Rightarrow> Inl e | Inr r \<Rightarrow>
        (case array_read_int data (idx + 1) of Inl e \<Rightarrow> Inl e | Inr g \<Rightarrow>
        (case array_read_int data (idx + 2) of Inl e \<Rightarrow> Inl e | Inr b \<Rightarrow>
           Inr (fadd minHeight
                  (fmul (normalizedHeightPacked_binary32 (Finite (uchar_to_float r))
                           (Finite (uchar_to_float g)) (Finite (uchar_to_float b)))
                     heightScale)))))"

definition raw16_height ::
  "uchar list \<Rightarrow> float \<Rightarrow> float \<Rightarrow> uint \<Rightarrow> cint \<Rightarrow> uint \<Rightarrow> error + float" where
  "raw16_height bytes minHeight heightScale width y x =
     (let idx = push_bit 1 (y * width + x)
      in case array_read_int bytes idx of Inl e \<Rightarrow> Inl e | Inr lo \<Rightarrow>
        (case array_read_int bytes (idx + 1) of Inl e \<Rightarrow> Inl e | Inr hi \<Rightarrow>
           Inr (fadd minHeight
                  (fmul (fdiv (int_to_float ((ucast lo :: cint) OR push_bit 8 (ucast hi :: cint)))
                           (Finite 65535))
                     heightScale))))"

definition raw8_height ::
  "uchar list \<Rightarrow> float \<Rightarrow> float \<Rightarrow> uint \<Rightarrow> cint \<Rightarrow> uint \<Rightarrow> error + float" where
  "raw8_height bytes minHeight heightScale width y x =
     (case array_read bytes (y * width + x) of Inl e \<Rightarrow> Inl e | Inr v \<Rightarrow>
        Inr (fadd minHeight (fmul (fdiv (Finite (uchar_to_float v)) (Finite 255)) heightScale)))"

text \<open>
  Modelled from the spec: the image-decoding collaborator (\<^verbatim>\<open>Image.h\<close> is missing).
  \<^verbatim>\<open>Image::create(path)\<close> yields a decoded image or fails; an image has a pixel
  format that is 3-channel (\<^verbatim>\<open>Image::RGB\<close>), 4-channel (\<^verbatim>\<open>Image::RGBA\<close>) or another
  one (the \<^verbatim>\<open>default\<close> case of the \<^verbatim>\<open>switch\<close>), a width, a height and the pixel bytes.
\<close>

datatype Format = RGB | RGBA | OtherFormat

record Image =
  img_format :: Format
  img_width :: uint
  img_height :: uint
  img_data :: "uchar list"

text \<open>
  Modelled from the spec: what \<^verbatim>\<open>create\<close> takes from outside (\<^verbatim>\<open>Image.h\<close>,
  \<^verbatim>\<open>FileSystem.h\<close> and \<^verbatim>\<open>Base.h\<close> are missing), as parameters:
  \<^item> \<^verbatim>\<open>Image::create(path)\<close>;
  \<^item> \<^verbatim>\<open>FileSystem::readAll(path, &fileSize)\<close>, which yields the bytes of the file or
    fails; \<^verbatim>\<open>fileSize\<close>, an \<^verbatim>\<open>int\<close>, is their number, so the statements about files
    are about files of fewer than \<open>2\<^sup>3\<^sup>1\<close> bytes;
  \<^item> the content of freshly allocated memory;
  \<^item> whether \<^verbatim>\<open>GP_ASSERT\<close> is compiled in: it aborts when its condition fails in a
    build with assertions, and is empty otherwise.
  \<^verbatim>\<open>GP_WARN\<close> and the two I/O calls are recorded in a log, in the order they happen.
\<close>

record environment =
  Image_create :: "string \<Rightarrow> Image option"
  FileSystem_readAll :: "string \<Rightarrow> uchar list option"
  fresh_memory :: "nat \<Rightarrow> float"
  assertions_enabled :: bool

datatype warning =
    UnrecognizedExtension
  | UnsupportedPixelFormat
  | InvalidRawParameter
  | FailedToReadBytes
  | InvalidRawFile
  | UnsupportedImageFormat

datatype event = CallImageCreate string | CallReadAll string | Warn warning string

text \<open>
  \<^verbatim>\<open>toupper\<close> in the C locale, on a \<^verbatim>\<open>char\<close> of the path: the letters \<open>a\<close> to
  \<open>z\<close> (97 to 122) move to \<open>A\<close> to \<open>Z\<close>, every other byte stays.
\<close>

definition toupper :: "char \<Rightarrow> char" where
  "toupper c =
     (if (97::nat) \<le> of_char c \<and> of_char c \<le> (122::nat) then char_of (of_char c - (32::nat))
      else c)"

text \<open>
  The branch of line 67, a path ending in \<^verbatim>\<open>.png\<close>.  \<^verbatim>\<open>getArray\<close> returns the
  buffer of the grid itself, so the buffer the loops have filled is the grid's.
\<close>

definition create_png ::
  "environment \<Rightarrow> string \<Rightarrow> float \<Rightarrow> float \<Rightarrow> event list \<times> (error + HeightField option)" where
  "create_png env path minHeight heightScale =
     (case Image_create env path of
        None \<Rightarrow> ([CallImageCreate path], Inr None)
      | Some img \<Rightarrow>
         (case (case img_format img of RGB \<Rightarrow> Some 3 | RGBA \<Rightarrow> Some 4 | OtherFormat \<Rightarrow> None) of
            None \<Rightarrow> ([CallImageCreate path, Warn UnsupportedPixelFormat path], Inr None)
          | Some pixelSize \<Rightarrow>
             (let heightfield =
                    HeightField_new (fresh_memory env) (img_width img) (img_height img);
                  heights = getArray heightfield;
                  data = img_data img
              in case fill_rows (image_height data pixelSize minHeight heightScale (img_width img))
                        (img_width img) (img_height img - 1) (heights, 0) of
                   Inl e \<Rightarrow> ([CallImageCreate path], Inl e)
                 | Inr (heights', i) \<Rightarrow>
                     ([CallImageCreate path], Inr (Some (heightfield\<lparr>hf_array := heights'\<rparr>))))))"

text \<open>The branch of line 105, a path ending in \<^verbatim>\<open>.raw\<close>.\<close>

definition create_raw ::
  "environment \<Rightarrow> string \<Rightarrow> uint \<Rightarrow> uint \<Rightarrow> float \<Rightarrow> float \<Rightarrow> float
     \<Rightarrow> event list \<times> (error + HeightField option)" where
  "create_raw env path width height minHeight maxHeight heightScale =
     (if width < 2 \<or> height < 2 \<or> float_less maxHeight (Finite 0) then
        ([Warn InvalidRawParameter path], Inr None)
      else
        (case FileSystem_readAll env path of
           None \<Rightarrow> ([CallReadAll path, Warn FailedToReadBytes path], Inr None)
         | Some bytes \<Rightarrow>
            (let fileSize = (word_of_nat (length bytes) :: cint)
             in if width * height = 0 then ([CallReadAll path], Inl DivisionByZero)
                else
                 (let bits = (fileSize div (width * height)) * 8
                  in if bits \<noteq> 8 \<and> bits \<noteq> 16 then
                       ([CallReadAll path, Warn InvalidRawFile path], Inr None)
                     else
                      (let heightfield = HeightField_new (fresh_memory env) width height;
                           heights = getArray heightfield
                       in case (if bits = 16
                                then fill_rows (raw16_height bytes minHeight heightScale width)
                                       width (height - 1) (heights, 0)
                                else fill_rows (raw8_height bytes minHeight heightScale width)
                                       width (height - 1) (heights, 0)) of
                            Inl e \<Rightarrow> ([CallReadAll path], Inl e)
                          | Inr (heights', i) \<Rightarrow>
                              ([CallReadAll path],
                               Inr (Some (heightfield\<lparr>hf_array := heights'\<rparr>))))))))"

text \<open>
  \<^verbatim>\<open>HeightField::create(path, width, height, minHeight, maxHeight)\<close>.  The path is the
  content of the C string, so \<^verbatim>\<open>strlen\<close> is its length and \<^verbatim>\<open>GP_ASSERT(path)\<close> holds.
  \<open>Inr None\<close> is the \<^verbatim>\<open>NULL\<close> result.
\<close>

definition create ::
  "environment \<Rightarrow> string \<Rightarrow> uint \<Rightarrow> uint \<Rightarrow> float \<Rightarrow> float
     \<Rightarrow> event list \<times> (error + HeightField option)" where
  "create env path width height minHeight maxHeight =
     (if assertions_enabled env \<and> \<not> float_ge maxHeight minHeight then
        ([], Inl AssertionFailed)
      else
       (let pathLength = length path
        in if pathLength \<le> 4 then ([Warn UnrecognizedExtension path], Inr None)
           else
            (let heightScale = fsub maxHeight minHeight;
                 ext = drop (pathLength - 4) path
             in if ext ! 0 = CHR ''.'' \<and> toupper (ext ! 1) = CHR ''P''
                   \<and> toupper (ext ! 2) = CHR ''N'' \<and> toupper (ext ! 3) = CHR ''G''
                then create_png env path minHeight heightScale
                else if ext ! 0 = CHR ''.'' \<and> toupper (ext ! 1) = CHR ''R''
                   \<and> toupper (ext ! 2) = CHR ''A'' \<and> toupper (ext ! 3) = CHR ''W''
                then create_raw env path width height minHeight maxHeight heightScale
                else ([Warn UnsupportedImageFormat path], Inr None))))"

definition createFromImage ::
  "environment \<Rightarrow> string \<Rightarrow> float \<Rightarrow> float \<Rightarrow> event list \<times> (error + HeightField option)" where
  "createFromImage env path minHeight maxHeight = create env path 0 0 minHeight maxHeight"

definition createFromRAW ::
  "environment \<Rightarrow> string \<Rightarrow> uint \<Rightarrow> uint \<Rightarrow> float \<Rightarrow> float
     \<Rightarrow> event list \<times> (error + HeightField option)" where
  "createFromRAW env path width height minHeight maxHeight =
     create env path width height minHeight maxHeight"

section \<open>The statements of the specification\<close>

text \<open>
  A grid is an object as the constructor builds it (the buffer has
  \<^verbatim>\<open>columns * rows\<close> elements, the product taken in \<^verbatim>\<open>unsigned int\<close>) for which the
  invariant of the data model holds: the buffer has as many elements as the grid has
  cells.  Both together say that the number of cells fits an \<^verbatim>\<open>unsigned int\<close>.
\<close>

definition is_grid :: "HeightField \<Rightarrow> bool" where
  "is_grid hf \<longleftrightarrow>
     length (hf_array hf) = unat (hf_cols hf * hf_rows hf) \<and>
     length (hf_array hf) = unat (hf_cols hf) * unat (hf_rows hf)"

text \<open>An \<^verbatim>\<open>unsigned int\<close> that converts to \<^verbatim>\<open>float\<close> without rounding.\<close>

definition exact_float :: "uint \<Rightarrow> bool" where
  "exact_float n \<longleftrightarrow> round_to_float (unat n) = unat n"

text \<open>A finite sample: a finite number that is a binary32 value.\<close>

fun finite_binary32 :: "float \<Rightarrow> bool" where
  "finite_binary32 (Finite r) = (round_to_binary32 r = Finite r)"
| "finite_binary32 _ = False"

fun all_finite :: "float list \<Rightarrow> bool" where
  "all_finite [] = True"
| "all_finite (s # ss) = (finite_binary32 s \<and> all_finite ss)"

text \<open>
  The sampling operation in the words of the specification: clamp each coordinate
  into \<open>[0, n - 1]\<close> (an infinity saturates; a NaN has no place in an interval), take
  \<open>x1 = floor column\<close>, \<open>y1 = floor row\<close>, \<open>x2 = x1 + 1\<close>, \<open>y2 = y1 + 1\<close>, the
  fractions \<open>column - x1\<close> and \<open>row - y1\<close>, and apply the edge policy.  The cell
  \<open>(x, y)\<close> is the element \<open>x + y * columns\<close> of the buffer.  The weights and the
  weighted sums are \<^verbatim>\<open>float\<close> expressions: a weight \<open>1 - xFrac\<close> is a \<^verbatim>\<open>float\<close>
  difference, a weight of the bilinear blend the \<^verbatim>\<open>float\<close> product of its two
  factors, and the four weighted samples are added in the order in which the
  specification lists them.
\<close>

fun clamp_spec :: "float \<Rightarrow> real \<Rightarrow> real option" where
  "clamp_spec (Finite v) hi = Some (max 0 (min hi v))"
| "clamp_spec PosInf hi = Some hi"
| "clamp_spec NegInf hi = Some 0"
| "clamp_spec NaN hi = None"

definition sample :: "HeightField \<Rightarrow> nat \<Rightarrow> nat \<Rightarrow> float" where
  "sample hf x y = hf_array hf ! (x + y * unat (hf_cols hf))"

definition blend_spec :: "HeightField \<Rightarrow> real \<Rightarrow> real \<Rightarrow> float" where
  "blend_spec hf column row =
     (let columns = unat (hf_cols hf); rows = unat (hf_rows hf);
          x1 = nat \<lfloor>column\<rfloor>; y1 = nat \<lfloor>row\<rfloor>;
          x2 = x1 + 1; y2 = y1 + 1;
          xFrac = Finite (column - real x1); yFrac = Finite (row - real y1);
          xInv = fsub (Finite 1) xFrac; yInv = fsub (Finite 1) yFrac
      in if x2 > columns - 1 \<and> y2 > rows - 1 then sample hf x1 y1
         else if x2 > columns - 1 then
           fadd (fmul yInv (sample hf x1 y1)) (fmul yFrac (sample hf x1 y2))
         else if y2 > rows - 1 then
           fadd (fmul xInv (sample hf x1 y1)) (fmul xFrac (sample hf x2 y1))
         else
           fadd (fadd (fadd (fmul (fmul xInv yInv) (sample hf x1 y1))
                         (fmul (fmul xInv yFrac) (sample hf x1 y2)))
                   (fmul (fmul xFrac yFrac) (sample hf x2 y2)))
             (fmul (fmul xFrac yInv) (sample hf x2 y1)))"

definition getHeight_spec :: "HeightField \<Rightarrow> float \<Rightarrow> float \<Rightarrow> float option" where
  "getHeight_spec hf column row =
     (case clamp_spec column (real (unat (hf_cols hf)) - 1) of None \<Rightarrow> None | Some c \<Rightarrow>
     (case clamp_spec row (real (unat (hf_rows hf)) - 1) of None \<Rightarrow> None | Some r \<Rightarrow>
      Some (blend_spec hf c r)))"

text \<open>
  The last four characters of a path equal an extension up to the case of letters.
\<close>

definition extension_is :: "string \<Rightarrow> string \<Rightarrow> bool" where
  "extension_is path e \<longleftrightarrow>
     4 < length path \<and> map toupper (drop (length path - 4) path) = map toupper e"

text \<open>Bytes per pixel of a supported format.\<close>

fun channels :: "Format \<Rightarrow> nat" where
  "channels RGB = 3"
| "channels RGBA = 4"
| "channels OtherFormat = 0"

text \<open>
  What the loaders store, in the words of the specification, each formula a
  \<^verbatim>\<open>float\<close> expression.  \<open>pixel_height\<close> is the height of the pixel at column \<open>k\<close>
  of image row \<open>r\<close>, from the first three of its \<open>ps\<close> bytes, with the decoder's
  value \<open>(256 r + g + b / 256) / 65536\<close>; \<open>raw8_sample\<close> and \<open>raw16_sample\<close> are the
  heights of sample \<open>k\<close> of file row \<open>r\<close>, from one byte or from two bytes, low
  byte first.  \<open>rows_flipped f W H\<close> is the grid of \<open>W\<close> columns and \<open>H\<close> rows
  whose row 0 is source row \<open>H - 1\<close> and whose last row is source row 0.
\<close>

definition pixel_height ::
  "uchar list \<Rightarrow> nat \<Rightarrow> float \<Rightarrow> float \<Rightarrow> nat \<Rightarrow> nat \<Rightarrow> nat \<Rightarrow> float" where
  "pixel_height data ps minHeight heightScale W r k =
     fadd minHeight
       (fmul (Finite (normalizedHeightPacked (uchar_to_float (data ! ((r * W + k) * ps)))
                        (uchar_to_float (data ! ((r * W + k) * ps + 1)))
                        (uchar_to_float (data ! ((r * W + k) * ps + 2)))))
          heightScale)"

definition raw8_sample :: "uchar list \<Rightarrow> float \<Rightarrow> float \<Rightarrow> nat \<Rightarrow> nat \<Rightarrow> nat \<Rightarrow> float" where
  "raw8_sample bytes minHeight heightScale W r k =
     fadd minHeight
       (fmul (fdiv (Finite (uchar_to_float (bytes ! (r * W + k)))) (Finite 255)) heightScale)"

definition raw16_sample :: "uchar list \<Rightarrow> float \<Rightarrow> float \<Rightarrow> nat \<Rightarrow> nat \<Rightarrow> nat \<Rightarrow> float" where
  "raw16_sample bytes minHeight heightScale W r k =
     fadd minHeight
       (fmul (fdiv (Finite (real (unat (bytes ! (2 * (r * W + k)))
                                  + 256 * unat (bytes ! (2 * (r * W + k) + 1)))))
                (Finite 65535))
          heightScale)"

definition rows_flipped :: "(nat \<Rightarrow> nat \<Rightarrow> float) \<Rightarrow> nat \<Rightarrow> nat \<Rightarrow> float list" where
  "rows_flipped f W H = concat (map (\<lambda>r. map (f r) [0 ..< W]) (rev [0 ..< H]))"

subsection \<open>Inputs of the examples\<close>

definition grid_2x2 :: HeightField where
  "grid_2x2 = \<lparr> hf_array = [Finite 1, Finite 2, Finite 3, Finite 4], hf_cols = 2, hf_rows = 2 \<rparr>"

definition grid_4x4 :: HeightField where
  "grid_4x4 = \<lparr> hf_array = map (\<lambda>n. Finite (real n)) [0 ..< 16], hf_cols = 4, hf_rows = 4 \<rparr>"

text \<open>A grid with an infinite sample, and one with a sample of \<open>2\<^sup>2\<^sup>4\<close>.\<close>

definition infinite_grid :: HeightField where
  "infinite_grid = \<lparr> hf_array = [Finite 1, PosInf, Finite 3, Finite 4], hf_cols = 2, hf_rows = 2 \<rparr>"

definition steep_grid :: HeightField where
  "steep_grid = \<lparr> hf_array = [Finite 16777216, Finite 1, Finite 3, Finite 4],
                   hf_cols = 2, hf_rows = 2 \<rparr>"

text \<open>A grid of one row and 16777220 columns (64 MiB of samples).\<close>

definition wide_grid :: HeightField where
  "wide_grid = \<lparr> hf_array = replicate 16777220 (Finite 0), hf_cols = 16777220, hf_rows = 1 \<rparr>"

text \<open>A decoded RGBA image of two by two pixels.\<close>

definition small_image :: Image where
  "small_image = \<lparr> img_format = RGBA, img_width = 2, img_height = 2,
                    img_data = [0, 0, 0, 9,  0, 1, 0, 9,  1, 0, 0, 9,  255, 255, 255, 9] \<rparr>"

definition env_small_image :: environment where
  "env_small_image = \<lparr> Image_create = (\<lambda>p. Some small_image), FileSystem_readAll = (\<lambda>p. None),
                         fresh_memory = (\<lambda>n. Finite 0), assertions_enabled = True \<rparr>"

text \<open>A decoded RGB image of 32768 by 32768 pixels (3 GiB of pixel data).\<close>

definition huge_image :: Image where
  "huge_image = \<lparr> img_format = RGB, img_width = 32768, img_height = 32768,
                   img_data = replicate 3221225472 0 \<rparr>"

definition env_huge_image :: environment where
  "env_huge_image = \<lparr> Image_create = (\<lambda>p. Some huge_image), FileSystem_readAll = (\<lambda>p. None),
                        fresh_memory = (\<lambda>n. Finite 0), assertions_enabled = True \<rparr>"

text \<open>A file system in which every path holds the given bytes.\<close>

definition env_raw :: "uchar list \<Rightarrow> environment" where
  "env_raw bytes = \<lparr> Image_create = (\<lambda>p. None), FileSystem_readAll = (\<lambda>p. Some bytes),
                      fresh_memory = (\<lambda>n. Finite 0), assertions_enabled = True \<rparr>"

definition five_bytes :: "uchar list" where
  "five_bytes = [0, 51, 102, 153, 204]"

definition eight_bytes :: "uchar list" where
  "eight_bytes = [1, 0, 2, 0, 3, 0, 255, 255]"

definition bytes_4x4 :: "uchar list" where
  "bytes_4x4 = replicate 16 255"

section \<open>The length of a number in bits\<close>

lemma bit_length_le_iff: "bit_length n \<le> k \<longleftrightarrow> n < 2 ^ k"
proof (induction n arbitrary: k rule: bit_length.induct)
  case (1 n)
  show ?case
  proof (cases "n = 0")
    case True
    then show ?thesis by (simp add: bit_length.simps)
  next
    case False
    note nz = this
    show ?thesis
    proof (cases k)
      case 0
      with nz show ?thesis by (simp add: bit_length.simps [of n])
    next
      case (Suc k')
      have "bit_length n \<le> Suc k' \<longleftrightarrow> bit_length (n div 2) \<le> k'"
        using nz by (simp add: bit_length.simps [of n])
      also have "\<dots> \<longleftrightarrow> n div 2 < 2 ^ k'"
        using "1.IH" [OF nz] .
      also have "\<dots> \<longleftrightarrow> n < 2 ^ Suc k'"
        by auto
      finally show ?thesis using Suc by simp
    qed
  qed
qed

lemma bit_length_numeral:
  "bit_length 0 = 0"
  "bit_length 1 = 1"
  "bit_length (Suc 0) = 1"
  "bit_length (numeral Num.One) = 1"
  "bit_length (numeral (Num.Bit0 n)) = bit_length (numeral n) + 1"
  "bit_length (numeral (Num.Bit1 n)) = bit_length (numeral n) + 1"
proof -
  show "bit_length 0 = 0" by (simp add: bit_length.simps)
  show "bit_length 1 = 1" by (simp add: bit_length.simps)
  show "bit_length (Suc 0) = 1" by (simp add: bit_length.simps)
  show "bit_length (numeral Num.One) = 1" by (simp add: bit_length.simps)
  have "numeral (Num.Bit0 n) div 2 = (numeral n :: nat)" by simp
  then show "bit_length (numeral (Num.Bit0 n)) = bit_length (numeral n) + 1"
    by (simp add: bit_length.simps [of "numeral (Num.Bit0 n)"])
  have "numeral (Num.Bit1 n) div 2 = (numeral n :: nat)" by simp
  then show "bit_length (numeral (Num.Bit1 n)) = bit_length (numeral n) + 1"
    by (simp add: bit_length.simps [of "numeral (Num.Bit1 n)"])
qed

section \<open>Rounding to binary32\<close>

text \<open>The facts that evaluate a rounding at a given number.\<close>

lemmas binary32_eval = round_to_binary32_def round_half_even_def Let_def bit_length_numeral

lemma round_half_even_int: "round_half_even (of_int q) = q"
  by (simp add: round_half_even_def)

text \<open>
  A number \<open>k / 2\<^sup>j\<close> with \<open>k\<close> of at most 24 bits is a binary32 value: rounding
  leaves it as it is.
\<close>

lemma round_to_binary32_exact:
  fixes k j :: nat
  assumes k: "k < 2 ^ 24" and j: "j \<le> 149"
  shows "round_to_binary32 (real k / 2 ^ j) = Finite (real k / 2 ^ j)"
proof -
  define x where "x = real k / 2 ^ j"
  define n where "n = k * 2 ^ (149 - j)"
  have x0: "0 \<le> x" by (simp add: x_def)
  have p: "(2::real) ^ 149 = 2 ^ j * 2 ^ (149 - j)"
    using j by (simp add: power_add [symmetric])
  have a: "\<bar>x\<bar> * 2 ^ 149 = real n"
    unfolding p using x0 by (simp add: x_def n_def)
  define e where "e = bit_length n - 24"
  have "n < 2 ^ 24 * 2 ^ (149 - j)"
    unfolding n_def using k by simp
  then have nb: "n < 2 ^ (24 + (149 - j))" by (simp add: power_add)
  then have "bit_length n \<le> 24 + (149 - j)" unfolding bit_length_le_iff .
  then have ej: "e \<le> 149 - j" by (simp add: e_def)
  then have "(2::nat) ^ e dvd 2 ^ (149 - j)" by (rule le_imp_power_dvd)
  then have "2 ^ e dvd n" unfolding n_def by (rule dvd_mult)
  then obtain q where q: "n = 2 ^ e * q" by (auto simp: dvd_def)
  have quot: "real n / 2 ^ e = real_of_int (int q)" by (simp add: q)
  have m: "round_half_even (real n / 2 ^ e) * 2 ^ e = int n"
    unfolding quot round_half_even_int by (simp add: q)
  note nb
  also have "(2::nat) ^ (24 + (149 - j)) \<le> 2 ^ 277"
    by (rule power_increasing) simp_all
  finally have "int n < int (2 ^ 277)" by (rule iffD2 [OF of_nat_less_iff])
  then have small: "\<not> 2 ^ 277 \<le> int n" by simp
  have val: "sgn x * real_of_int (int n) / 2 ^ 149 = x"
  proof (cases "x = 0")
    case True
    then show ?thesis by simp
  next
    case False
    then have "0 < x" using x0 by simp
    then have "sgn x = 1" by simp
    moreover have "real n / 2 ^ 149 = x" using a x0 by simp
    ultimately show ?thesis by simp
  qed
  have r: "round_to_binary32 x =
      (if 2 ^ 277 \<le> round_half_even (real n / 2 ^ e) * 2 ^ e
       then (if x < 0 then NegInf else PosInf)
       else Finite (sgn x * of_int (round_half_even (real n / 2 ^ e) * 2 ^ e) / 2 ^ 149))"
    unfolding round_to_binary32_def Let_def a e_def by (simp only: floor_of_nat nat_int)
  have "round_to_binary32 x = Finite x"
    unfolding r m using small by (simp only: if_False val)
  then show ?thesis by (simp only: x_def)
qed

lemma round_dyadic:
  assumes "x = real k / 2 ^ j" and "k < 2 ^ 24" and "j \<le> 149"
  shows "round_to_binary32 x = Finite x"
  unfolding assms(1) using assms(2,3) by (rule round_to_binary32_exact)

lemma round_to_binary32_nat: "k < 2 ^ 24 \<Longrightarrow> round_to_binary32 (real k) = Finite (real k)"
  by (rule round_dyadic [where k = k and j = 0]) simp_all

lemma round_to_binary32_0_1:
  "round_to_binary32 0 = Finite 0" "round_to_binary32 1 = Finite 1"
  by (simp_all add: binary32_eval)

lemma fmul_commute: "fmul a b = fmul b a"
  by (cases a; cases b) (simp_all add: mult.commute)

text \<open>Products and sums with the weights 1 and 0, on finite samples.\<close>

lemma finite_binary32_cases:
  assumes "finite_binary32 s"
  obtains r where "s = Finite r" and "round_to_binary32 r = Finite r"
  using assms by (cases s) simp_all

lemma fmul_one: "finite_binary32 s \<Longrightarrow> fmul (Finite 1) s = s"
  by (erule finite_binary32_cases) simp

lemma fmul_zero: "finite_binary32 s \<Longrightarrow> fmul (Finite 0) s = Finite 0"
  by (erule finite_binary32_cases) (simp add: round_to_binary32_0_1)

lemma fadd_zero: "finite_binary32 s \<Longrightarrow> fadd s (Finite 0) = s"
  by (erule finite_binary32_cases) simp

lemma all_finite_nth: "all_finite ss \<Longrightarrow> i < length ss \<Longrightarrow> finite_binary32 (ss ! i)"
proof (induction ss arbitrary: i)
  case Nil
  then show ?case by simp
next
  case (Cons s ss)
  then show ?case by (cases i) simp_all
qed

section \<open>Rounding of integers to \<^verbatim>\<open>float\<close>\<close>

lemma round_nearest_even_0: "round_nearest_even 0 n = n"
  by (simp add: round_nearest_even_def)

lemma round_to_float_small: "n < 2 ^ 24 \<Longrightarrow> round_to_float n = n"
proof -
  assume "n < 2 ^ 24"
  then have "bit_length n \<le> 24" by (simp add: bit_length_le_iff)
  then show ?thesis by (simp add: round_to_float_def round_nearest_even_0)
qed

lemma round_nearest_even_dvd: "2 ^ e dvd round_nearest_even e n"
  by (simp add: round_nearest_even_def Let_def)

lemma round_nearest_even_ge: "(n div 2 ^ e) * 2 ^ e \<le> round_nearest_even e n"
  by (simp add: round_nearest_even_def Let_def)

lemma bit_length_mono: "m \<le> n \<Longrightarrow> bit_length m \<le> bit_length n"
proof -
  assume mn: "m \<le> n"
  have "n < 2 ^ bit_length n" using bit_length_le_iff [of n "bit_length n"] by simp
  with mn have "m < 2 ^ bit_length n" by simp
  then show ?thesis by (simp add: bit_length_le_iff)
qed

lemma bit_length_lower: "0 < n \<Longrightarrow> 2 ^ (bit_length n - 1) \<le> n"
proof -
  assume pos: "0 < n"
  then have bl: "bit_length n \<noteq> 0" by (simp add: bit_length.simps [of n])
  have "\<not> bit_length n \<le> bit_length n - 1" using bl by simp
  then have "\<not> n < 2 ^ (bit_length n - 1)" unfolding bit_length_le_iff .
  then show ?thesis by (rule leI)
qed

lemma round_to_float_ge_exact:
  assumes ex: "round_to_float x = x" and le: "x \<le> n"
  shows "x \<le> round_to_float n"
proof -
  define ex' where "ex' = bit_length x - 24"
  define e where "e = bit_length n - 24"
  have dvdx: "2 ^ ex' dvd x"
    using round_nearest_even_dvd [of ex' x] ex by (simp add: round_to_float_def ex'_def)
  have ee: "ex' \<le> e"
    using bit_length_mono [OF le] by (simp add: ex'_def e_def)
  have lower: "(n div 2 ^ e) * 2 ^ e \<le> round_to_float n"
    using round_nearest_even_ge [of n e] by (simp add: round_to_float_def e_def)
  have "2 ^ e dvd x \<or> x < 2 ^ (bit_length n - 1)"
  proof (cases "bit_length x = bit_length n")
    case True
    then show ?thesis using dvdx by (simp add: ex'_def e_def)
  next
    case False
    then have "bit_length x \<le> bit_length n - 1"
      using bit_length_mono [OF le] by simp
    then show ?thesis by (simp add: bit_length_le_iff)
  qed
  then show ?thesis
  proof
    assume d: "2 ^ e dvd x"
    then obtain k where k: "x = 2 ^ e * k" by (auto simp: dvd_def)
    have "k \<le> n div 2 ^ e"
      using le k by (metis div_le_mono nonzero_mult_div_cancel_left power_not_zero zero_neq_numeral)
    then have "x \<le> (n div 2 ^ e) * 2 ^ e" using k by simp
    with lower show ?thesis by simp
  next
    assume small: "x < 2 ^ (bit_length n - 1)"
    show ?thesis
    proof (cases "n = 0")
      case True
      with le show ?thesis by simp
    next
      case False
      then have low: "2 ^ (bit_length n - 1) \<le> n" by (intro bit_length_lower) simp
      have "e \<le> bit_length n - 1" by (simp add: e_def)
      then have "(2::nat) ^ e dvd 2 ^ (bit_length n - 1)" by (simp add: le_imp_power_dvd)
      then obtain k where k: "(2::nat) ^ (bit_length n - 1) = 2 ^ e * k" by (auto simp: dvd_def)
      have "k \<le> n div 2 ^ e"
        using low k by (metis div_le_mono nonzero_mult_div_cancel_left power_not_zero zero_neq_numeral)
      then have "2 ^ (bit_length n - 1) \<le> (n div 2 ^ e) * 2 ^ e" using k by simp
      with lower small show ?thesis by simp
    qed
  qed
qed

lemma round_to_float_pow24: "round_to_float (2 ^ 24) = 2 ^ 24"
  by (simp add: round_to_float_def round_nearest_even_def bit_length.simps)

lemma exact_float_small: "unat n \<le> 2 ^ 24 \<Longrightarrow> exact_float n"
  unfolding exact_float_def
  using round_to_float_small [of "unat n"] round_to_float_pow24
  by (cases "unat n = 2 ^ 24") auto

section \<open>The results of rounding are binary32 numbers\<close>

text \<open>
  Rounding is symmetric, it leaves a number \<open>k * 2\<^sup>i\<close> units with \<open>k\<close> of at most 24
  bits below the overflow threshold as it is, and so it is idempotent.
\<close>

lemma round_to_binary32_neg: "round_to_binary32 (- x) = fneg (round_to_binary32 x)"
proof (cases "x = 0")
  case True
  then show ?thesis by (simp add: round_to_binary32_def Let_def bit_length_numeral round_half_even_def)
next
  case False
  then show ?thesis
    by (cases "x < 0") (simp_all add: round_to_binary32_def Let_def sgn_if)
qed

lemma bit_length_gt: "n < 2 ^ bit_length n"
  using bit_length_le_iff [of n "bit_length n"] by simp

lemma round_to_binary32_representable:
  fixes k i :: nat
  assumes k: "k \<le> 2 ^ 24" and b: "k * 2 ^ i < 2 ^ 277"
  shows "round_to_binary32 (real (k * 2 ^ i) / 2 ^ 149) = Finite (real (k * 2 ^ i) / 2 ^ 149)"
proof -
  define n where "n = k * 2 ^ i"
  define x where "x = real n / 2 ^ 149"
  have x0: "0 \<le> x" by (simp add: x_def)
  have a: "\<bar>x\<bar> * 2 ^ 149 = real n" using x0 by (simp add: x_def)
  define e where "e = bit_length n - 24"
  have dv: "2 ^ e dvd n"
  proof (cases "k = 2 ^ 24")
    case True
    then have n24: "n = 2 ^ (24 + i)" by (simp add: n_def power_add)
    then have "n < 2 ^ (25 + i)" by simp
    then have "bit_length n \<le> 25 + i" unfolding bit_length_le_iff .
    then have "e \<le> 24 + i" by (simp add: e_def)
    then show ?thesis unfolding n24 by (rule le_imp_power_dvd)
  next
    case False
    then have "k < 2 ^ 24" using k by simp
    then have "n < 2 ^ 24 * 2 ^ i" unfolding n_def by simp
    then have "n < 2 ^ (24 + i)" by (simp add: power_add)
    then have "bit_length n \<le> 24 + i" unfolding bit_length_le_iff .
    then have "e \<le> i" by (simp add: e_def)
    then have "(2::nat) ^ e dvd 2 ^ i" by (rule le_imp_power_dvd)
    then show ?thesis unfolding n_def by (rule dvd_mult)
  qed
  then obtain q where q: "n = 2 ^ e * q" by (auto simp: dvd_def)
  have quot: "real n / 2 ^ e = real_of_int (int q)" by (simp add: q)
  have m: "round_half_even (real n / 2 ^ e) * 2 ^ e = int n"
    unfolding quot round_half_even_int by (simp add: q)
  have "int n < int (2 ^ 277)" using b unfolding n_def by (rule iffD2 [OF of_nat_less_iff])
  then have small: "\<not> 2 ^ 277 \<le> int n" by simp
  have val: "sgn x * real_of_int (int n) / 2 ^ 149 = x"
  proof (cases "x = 0")
    case True
    then show ?thesis by simp
  next
    case False
    then have "0 < x" using x0 by simp
    then have "sgn x = 1" by simp
    then show ?thesis by (simp add: x_def)
  qed
  have r: "round_to_binary32 x =
      (if 2 ^ 277 \<le> round_half_even (real n / 2 ^ e) * 2 ^ e
       then (if x < 0 then NegInf else PosInf)
       else Finite (sgn x * of_int (round_half_even (real n / 2 ^ e) * 2 ^ e) / 2 ^ 149))"
    unfolding round_to_binary32_def Let_def a e_def by (simp only: floor_of_nat nat_int)
  have "round_to_binary32 x = Finite x"
    unfolding r m using small by (simp only: if_False val)
  then show ?thesis by (simp only: x_def n_def)
qed

lemma round_half_even_bounds:
  assumes "0 \<le> t" and "t < real_of_int N"
  shows "0 \<le> round_half_even t" and "round_half_even t \<le> N"
proof -
  have f0: "0 \<le> \<lfloor>t\<rfloor>" using assms(1) by simp
  have "\<lfloor>t\<rfloor> < N" using assms(2) by (simp add: floor_less_iff)
  then have f1: "\<lfloor>t\<rfloor> + 1 \<le> N" by simp
  show "0 \<le> round_half_even t" using f0 by (simp add: round_half_even_def Let_def)
  show "round_half_even t \<le> N" using f1 by (simp add: round_half_even_def Let_def)
qed

lemma round_to_binary32_idem:
  assumes "round_to_binary32 x = Finite y"
  shows "round_to_binary32 y = Finite y"
proof -
  define a where "a = \<bar>x\<bar> * 2 ^ 149"
  define n where "n = nat \<lfloor>a\<rfloor>"
  define e where "e = bit_length n - 24"
  define q where "q = round_half_even (a / 2 ^ e)"
  have a0: "0 \<le> a" by (simp add: a_def)
  have r: "round_to_binary32 x =
      (if 2 ^ 277 \<le> q * 2 ^ e then (if x < 0 then NegInf else PosInf)
       else Finite (sgn x * of_int (q * 2 ^ e) / 2 ^ 149))"
    by (simp add: round_to_binary32_def Let_def a_def n_def e_def q_def)
  have small: "\<not> 2 ^ 277 \<le> q * 2 ^ e" and y: "y = sgn x * of_int (q * 2 ^ e) / 2 ^ 149"
    using assms unfolding r by (auto split: if_splits)
  have "a < real_of_int (\<lfloor>a\<rfloor> + 1)" by linarith
  also have "\<lfloor>a\<rfloor> + 1 = int (n + 1)" using a0 by (simp add: n_def)
  finally have an: "a < real (n + 1)" by simp
  have "n + 1 \<le> 2 ^ bit_length n" using bit_length_gt [of n] by simp
  also have "(2::nat) ^ bit_length n \<le> 2 ^ (e + 24)"
    by (rule power_increasing) (simp_all add: e_def)
  finally have "real (n + 1) \<le> real (2 ^ (e + 24))" by (rule of_nat_mono)
  with an have "a < real (2 ^ (e + 24))" by linarith
  then have "a < 2 ^ e * 2 ^ 24" by (simp add: power_add)
  then have t: "a / 2 ^ e < real_of_int (2 ^ 24)" by (simp add: field_simps)
  have t0: "0 \<le> a / 2 ^ e" using a0 by simp
  have q0: "0 \<le> q" and q24: "q \<le> 2 ^ 24"
    unfolding q_def using round_half_even_bounds [OF t0 t] by simp_all
  define k where "k = nat q"
  have kq: "int k = q" using q0 by (simp add: k_def)
  have k24: "k \<le> 2 ^ 24" using q24 q0 by (simp add: k_def nat_le_iff)
  have "int (k * 2 ^ e) = q * 2 ^ e" using kq by simp
  then have ke: "real (k * 2 ^ e) = real_of_int (q * 2 ^ e)"
    by (metis of_int_of_nat_eq)
  have "int (k * 2 ^ e) < 2 ^ 277" using small \<open>int (k * 2 ^ e) = q * 2 ^ e\<close> by simp
  then have kb: "k * 2 ^ e < 2 ^ 277"
    by (metis of_nat_less_iff of_nat_numeral of_nat_power)
  have pos: "round_to_binary32 (real (k * 2 ^ e) / 2 ^ 149) = Finite (real (k * 2 ^ e) / 2 ^ 149)"
    using k24 kb by (rule round_to_binary32_representable)
  show ?thesis
  proof (cases "x < 0")
    case True
    then have yy: "y = - (real (k * 2 ^ e) / 2 ^ 149)" unfolding y ke by simp
    show ?thesis unfolding yy round_to_binary32_neg pos by simp
  next
    case False
    show ?thesis
    proof (cases "x = 0")
      case True
      then have "y = 0" unfolding y by simp
      then show ?thesis by (simp add: round_to_binary32_0_1)
    next
      case False
      with \<open>\<not> x < 0\<close> have "sgn x = 1" by simp
      then have yy: "y = real (k * 2 ^ e) / 2 ^ 149" unfolding y ke by simp
      show ?thesis unfolding yy by (rule pos)
    qed
  qed
qed

lemma bit_length_shift:
  assumes "0 < n"
  shows "bit_length (n * 2 ^ k) = bit_length n + k"
proof (rule antisym)
  have "n < 2 ^ bit_length n" by (rule bit_length_gt)
  then have "n * 2 ^ k < 2 ^ bit_length n * 2 ^ k" by simp
  then have "n * 2 ^ k < 2 ^ (bit_length n + k)" by (simp add: power_add)
  then show "bit_length (n * 2 ^ k) \<le> bit_length n + k" unfolding bit_length_le_iff .
  have "2 ^ (bit_length n - 1) \<le> n" using assms by (rule bit_length_lower)
  then have "2 ^ (bit_length n - 1) * 2 ^ k \<le> n * 2 ^ k" by simp
  then have "2 ^ (bit_length n - 1 + k) \<le> n * 2 ^ k" by (simp add: power_add)
  then have "\<not> n * 2 ^ k < 2 ^ (bit_length n - 1 + k)" by simp
  then have "\<not> bit_length (n * 2 ^ k) \<le> bit_length n - 1 + k" unfolding bit_length_le_iff .
  moreover have "bit_length n \<noteq> 0" using assms by (simp add: bit_length.simps [of n])
  ultimately show "bit_length n + k \<le> bit_length (n * 2 ^ k)" by simp
qed

lemma round_half_even_nat_div:
  fixes n E :: nat
  shows "round_half_even (real n / 2 ^ E) = int (round_nearest_even E n div 2 ^ E)"
proof -
  define q where "q = n div 2 ^ E"
  define r where "r = n mod 2 ^ E"
  have "n = q * 2 ^ E + r" unfolding q_def r_def by (rule div_mult_mod_eq [symmetric])
  then have "real n = real (q * 2 ^ E + r)" by simp
  also have "\<dots> = real q * 2 ^ E + real r" by simp
  finally have split: "real n / 2 ^ E = real q + real r / 2 ^ E" by (simp add: field_simps)
  have rl: "r < 2 ^ E" by (simp add: r_def)
  then have rr: "real r < 2 ^ E"
    by (metis of_nat_less_iff of_nat_numeral of_nat_power)
  have fl: "\<lfloor>real n / 2 ^ E\<rfloor> = int q"
  proof (rule floor_unique)
    show "real_of_int (int q) \<le> real n / 2 ^ E" unfolding split by simp
    have "real r / 2 ^ E < 1" using rr by simp
    then show "real n / 2 ^ E < real_of_int (int q) + 1" unfolding split by simp
  qed
  have d: "real n / 2 ^ E - real_of_int (int q) = real r / 2 ^ E" using split by simp
  have lt: "real r / 2 ^ E < 1 / 2 \<longleftrightarrow> 2 * r < 2 ^ E"
  proof -
    have "real r / 2 ^ E < 1 / 2 \<longleftrightarrow> 2 * real r < 2 ^ E" by (simp add: field_simps)
    also have "\<dots> \<longleftrightarrow> real (2 * r) < real (2 ^ E)" by simp
    also have "\<dots> \<longleftrightarrow> 2 * r < 2 ^ E" by (rule of_nat_less_iff)
    finally show ?thesis .
  qed
  have eq: "real r / 2 ^ E = 1 / 2 \<longleftrightarrow> 2 * r = 2 ^ E"
  proof -
    have "real r / 2 ^ E = 1 / 2 \<longleftrightarrow> 2 * real r = 2 ^ E" by (auto simp add: field_simps)
    also have "\<dots> \<longleftrightarrow> real (2 * r) = real (2 ^ E)" by simp
    also have "\<dots> \<longleftrightarrow> 2 * r = 2 ^ E" by (rule of_nat_eq_iff)
    finally show ?thesis .
  qed
  have ev: "even (int q) \<longleftrightarrow> even q" by simp
  have lhs: "round_half_even (real n / 2 ^ E)
      = (if 2 * r < 2 ^ E \<or> (2 * r = 2 ^ E \<and> even q) then int q else int q + 1)"
    unfolding round_half_even_def Let_def fl d lt eq ev by (rule refl)
  have rhs: "round_nearest_even E n div 2 ^ E
      = (if 2 * r < 2 ^ E \<or> (2 * r = 2 ^ E \<and> even q) then q else q + 1)"
    unfolding round_nearest_even_def Let_def q_def [symmetric] r_def [symmetric] by simp
  show ?thesis unfolding lhs rhs by simp
qed

lemma round_to_float_bound:
  assumes "n < 2 ^ 32"
  shows "round_to_float n \<le> 2 ^ 32"
proof -
  define E where "E = bit_length n - 24"
  have "bit_length n \<le> 32" using assms unfolding bit_length_le_iff .
  then have E8: "E \<le> 32" by (simp add: E_def)
  have "n div 2 ^ E < 2 ^ (32 - E)"
  proof -
    have "(2::nat) ^ 32 = 2 ^ (32 - E) * 2 ^ E" using E8 by (simp add: power_add [symmetric])
    then have "n < 2 ^ (32 - E) * 2 ^ E" using assms by simp
    then show ?thesis by (simp add: less_mult_imp_div_less)
  qed
  then have "n div 2 ^ E + 1 \<le> 2 ^ (32 - E)" by simp
  then have "(n div 2 ^ E + 1) * 2 ^ E \<le> 2 ^ (32 - E) * 2 ^ E" by (rule mult_le_mono1)
  also have "(2::nat) ^ (32 - E) * 2 ^ E = 2 ^ 32" using E8 by (simp add: power_add [symmetric])
  finally have up: "(n div 2 ^ E + 1) * 2 ^ E \<le> 2 ^ 32" .
  have "n div 2 ^ E * 2 ^ E \<le> (n div 2 ^ E + 1) * 2 ^ E" by simp
  from this up have dn: "n div 2 ^ E * 2 ^ E \<le> 2 ^ 32" by (rule order_trans)
  show ?thesis
    unfolding round_to_float_def E_def [symmetric] round_nearest_even_def Let_def
    using up dn by simp
qed

text \<open>
  The conversion of an \<^verbatim>\<open>unsigned int\<close> is the rounding of its value to binary32:
  the two roundings of this theory agree.
\<close>

lemma uint_to_float_binary32: "uint_to_float w = round_to_binary32 (real (unat w))"
proof -
  define n where "n = unat w"
  have n32: "n < 2 ^ 32" using unsigned_less [of w, where 'a = nat] by (simp add: n_def)
  show ?thesis
  proof (cases "n < 2 ^ 24")
    case True
    then show ?thesis
      by (simp add: uint_to_float_def n_def [symmetric] round_to_float_small
          round_to_binary32_nat)
  next
    case False
    then have big: "2 ^ 24 \<le> n" by simp
    then have pos: "0 < n" by (rule less_le_trans [rotated]) simp
    have "\<not> bit_length n \<le> 24" unfolding bit_length_le_iff using False .
    then have bl: "24 < bit_length n" by simp
    define E where "E = bit_length n - 24"
    define R where "R = round_to_float n"
    have RE: "R = round_nearest_even E n" by (simp add: R_def round_to_float_def E_def)
    have a: "\<bar>real n\<bar> * 2 ^ 149 = real (n * 2 ^ 149)" by simp
    have s: "bit_length (n * 2 ^ 149) = bit_length n + 149"
      using pos by (rule bit_length_shift)
    have e: "bit_length (n * 2 ^ 149) - 24 = E + 149"
      unfolding s E_def using bl by simp
    have quot: "real (n * 2 ^ 149) / 2 ^ (E + 149) = real n / 2 ^ E"
      by (simp add: power_add)
    have dv: "2 ^ E dvd R" unfolding RE by (rule round_nearest_even_dvd)
    have m: "round_half_even (real n / 2 ^ E) * 2 ^ (E + 149) = int (R * 2 ^ 149)"
    proof -
      have "round_half_even (real n / 2 ^ E) * 2 ^ (E + 149)
          = int (R div 2 ^ E) * 2 ^ E * 2 ^ 149"
        unfolding round_half_even_nat_div RE by (simp add: power_add)
      also have "int (R div 2 ^ E) * 2 ^ E = int (R div 2 ^ E * 2 ^ E)" by simp
      also have "R div 2 ^ E * 2 ^ E = R" using dv by simp
      finally show ?thesis by simp
    qed
    have "R \<le> 2 ^ 32" unfolding R_def using n32 by (rule round_to_float_bound)
    then have "R * 2 ^ 149 \<le> 2 ^ 32 * 2 ^ 149" by simp
    also have "(2::nat) ^ 32 * 2 ^ 149 < 2 ^ 277" by simp
    finally have "int (R * 2 ^ 149) < int (2 ^ 277)" by (rule iffD2 [OF of_nat_less_iff])
    then have small: "\<not> 2 ^ 277 \<le> int (R * 2 ^ 149)" by simp
    have sg: "sgn (real n) = 1" using pos by simp
    have r: "round_to_binary32 (real n) =
        (if 2 ^ 277 \<le> round_half_even (real n / 2 ^ E) * 2 ^ (E + 149)
         then (if real n < 0 then NegInf else PosInf)
         else Finite (sgn (real n)
                * of_int (round_half_even (real n / 2 ^ E) * 2 ^ (E + 149)) / 2 ^ 149))"
      unfolding round_to_binary32_def Let_def a
      by (simp only: floor_of_nat nat_int e quot)
    have "round_to_binary32 (real n) = Finite (real R)"
      unfolding r m sg using small by simp
    then show ?thesis by (simp add: uint_to_float_def n_def [symmetric] R_def)
  qed
qed

text \<open>So the finite results of the arithmetic are binary32 numbers.\<close>

lemma arithmetic_binary32:
  "fadd (Finite a) (Finite b) = Finite c \<Longrightarrow> finite_binary32 (Finite c)"
  "fmul (Finite a) (Finite b) = Finite c \<Longrightarrow> finite_binary32 (Finite c)"
  "b \<noteq> 0 \<Longrightarrow> fdiv (Finite a) (Finite b) = Finite c \<Longrightarrow> finite_binary32 (Finite c)"
  "int_to_float i = Finite c \<Longrightarrow> finite_binary32 (Finite c)"
  "uint_to_float w = Finite c \<Longrightarrow> finite_binary32 (Finite c)"
  by (simp_all add: round_to_binary32_idem int_to_float_def uint_to_float_binary32)

section \<open>Clamping and indexing\<close>

lemma clamp_coord_spec:
  assumes "v \<noteq> NaN" and "exact_float (n - 1)" and "1 \<le> unat n"
  shows "\<exists>c. clamp_coord v n = Finite c \<and> clamp_spec v (real (unat n) - 1) = Some c
           \<and> 0 \<le> c \<and> c \<le> real (unat n) - 1"
proof -
  have n1: "unat (n - 1) = unat n - 1"
    using assms(3) by (simp add: unat_sub word_le_nat_alt)
  have u: "uint_to_float (n - 1) = Finite (real (unat n) - 1)"
    using assms(2,3) n1 by (simp add: uint_to_float_def exact_float_def of_nat_diff)
  have r1: "1 \<le> real (unat n)" using assms(3) by linarith
  show ?thesis
    using assms(1) r1 by (cases v) (auto simp: clamp_coord_def u)
qed

lemma float_to_uint_floor:
  assumes "0 \<le> c" and "c \<le> real m" and "m < 2 ^ 32"
  shows "\<exists>w. float_to_uint (Finite c) = Inr w \<and> unat w = nat \<lfloor>c\<rfloor> \<and> nat \<lfloor>c\<rfloor> \<le> m
          \<and> modf (Finite c) = Finite (c - real (nat \<lfloor>c\<rfloor>))"
proof -
  have f0: "0 \<le> \<lfloor>c\<rfloor>" using assms(1) by simp
  have fi: "\<lfloor>c\<rfloor> \<le> int m" using assms(2) by (simp add: floor_le_iff)
  then have fm: "nat \<lfloor>c\<rfloor> \<le> m" by simp
  then have lt: "nat \<lfloor>c\<rfloor> < 2 ^ 32" using assms(3) by simp
  have t: "truncate_real c = \<lfloor>c\<rfloor>" using assms(1) by (simp add: truncate_real_def)
  have "int m < 2 ^ 32" using assms(3) by simp
  then have lt': "\<lfloor>c\<rfloor> < 2 ^ 32" using fi by linarith
  have "unat (word_of_int \<lfloor>c\<rfloor> :: uint) = nat \<lfloor>c\<rfloor>"
    using f0 lt' by (simp add: unat_eq_nat_uint uint_word_of_int take_bit_int_eq_self)
  then show ?thesis using f0 lt' fm t by simp
qed

lemma is_grid_bound: "is_grid hf \<Longrightarrow> unat (hf_cols hf) * unat (hf_rows hf) < 2 ^ 32"
proof -
  assume g: "is_grid hf"
  have "unat (hf_cols hf * hf_rows hf) < 2 ^ 32"
    using unsigned_less [of "hf_cols hf * hf_rows hf", where 'a = nat] by simp
  with g show ?thesis by (simp add: is_grid_def)
qed

text \<open>
  The constructor establishes the invariant of the data model exactly when the
  number of cells fits an \<^verbatim>\<open>unsigned int\<close>.
\<close>

lemma HeightField_new_is_grid:
  "is_grid (HeightField_new fresh columns rows) \<longleftrightarrow> unat columns * unat rows < 2 ^ 32"
proof -
  have m: "unat (columns * rows) = (unat columns * unat rows) mod 2 ^ 32"
    by (simp add: unat_word_ariths)
  have "(unat columns * unat rows) mod 2 ^ 32 = unat columns * unat rows
      \<longleftrightarrow> unat columns * unat rows < 2 ^ 32"
    by (metis mod_less mod_less_divisor zero_less_numeral zero_less_power)
  then show ?thesis
    by (simp add: is_grid_def HeightField_new_def m)
qed

lemma cell_index:
  fixes x y cols rows :: uint
  assumes x: "unat x < unat cols" and y: "unat y < unat rows"
    and b: "unat cols * unat rows < 2 ^ 32"
  shows "unat (x + y * cols) = unat x + unat y * unat cols"
    and "unat x + unat y * unat cols < unat cols * unat rows"
proof -
  have "Suc (unat y) * unat cols \<le> unat rows * unat cols"
    using y by (intro mult_le_mono1) simp
  then show lt: "unat x + unat y * unat cols < unat cols * unat rows"
    using x by (simp add: mult.commute)
  have m: "unat y * unat cols < 2 ^ 32" using lt b by simp
  have "unat (y * cols) = unat y * unat cols"
    using m by (simp add: unat_word_ariths)
  then show "unat (x + y * cols) = unat x + unat y * unat cols"
    using lt b by (simp add: unat_word_ariths)
qed

lemma succ_index:
  fixes x n :: uint
  assumes "unat x < unat n"
  shows "unat (x + 1) = unat x + 1"
proof -
  have "unat n < 2 ^ 32" using unsigned_less [of n, where 'a = nat] by simp
  then have "unat x + 1 < 2 ^ 32" using assms by simp
  then show ?thesis by (simp add: unat_word_ariths)
qed

section \<open>Sampling\<close>

text \<open>
  Once both clamped coordinates are finite and inside the grid, every index that
  \<^verbatim>\<open>getHeight\<close> computes is inside the buffer and the result is the blend of the
  specification.
\<close>

lemma getHeight_blend:
  assumes g: "is_grid hf"
    and c1: "1 \<le> unat (hf_cols hf)" and r1: "1 \<le> unat (hf_rows hf)"
    and cc: "clamp_coord column (hf_cols hf) = Finite c"
    and c0: "0 \<le> c" and cC: "c \<le> real (unat (hf_cols hf) - 1)"
    and rr: "clamp_coord row (hf_rows hf) = Finite r"
    and r0: "0 \<le> r" and rR: "r \<le> real (unat (hf_rows hf) - 1)"
  shows "getHeight hf column row = Inr (blend_spec hf c r)"
proof -
  define C where "C = unat (hf_cols hf)"
  define R where "R = unat (hf_rows hf)"
  have CR: "unat (hf_cols hf) * unat (hf_rows hf) < 2 ^ 32" using is_grid_bound [OF g] .
  have Cb: "unat (hf_cols hf) - 1 < 2 ^ 32" and Rb: "unat (hf_rows hf) - 1 < 2 ^ 32"
    using unsigned_less [of "hf_cols hf", where 'a = nat]
          unsigned_less [of "hf_rows hf", where 'a = nat] by simp_all
  have len: "length (hf_array hf) = C * R" using g by (simp add: is_grid_def C_def R_def)
  obtain x1 where x1: "float_to_uint (Finite c) = Inr x1" "unat x1 = nat \<lfloor>c\<rfloor>"
      "nat \<lfloor>c\<rfloor> \<le> C - 1" "modf (Finite c) = Finite (c - real (nat \<lfloor>c\<rfloor>))"
    using float_to_uint_floor [OF c0 cC Cb] unfolding C_def by blast
  obtain y1 where y1: "float_to_uint (Finite r) = Inr y1" "unat y1 = nat \<lfloor>r\<rfloor>"
      "nat \<lfloor>r\<rfloor> \<le> R - 1" "modf (Finite r) = Finite (r - real (nat \<lfloor>r\<rfloor>))"
    using float_to_uint_floor [OF r0 rR Rb] unfolding R_def by blast
  define X where "X = nat \<lfloor>c\<rfloor>"
  define Y where "Y = nat \<lfloor>r\<rfloor>"
  have Xlt: "unat x1 < unat (hf_cols hf)" using x1(2,3) c1 by (simp add: C_def)
  have Ylt: "unat y1 < unat (hf_rows hf)" using y1(2,3) r1 by (simp add: R_def)
  have x2: "unat (x1 + 1) = X + 1" using succ_index [OF Xlt] x1(2) by (simp add: X_def)
  have y2: "unat (y1 + 1) = Y + 1" using succ_index [OF Ylt] y1(2) by (simp add: Y_def)
  have cx: "hf_cols hf \<le> x1 + 1 \<longleftrightarrow> X + 1 > C - 1"
    using x2 c1 by (auto simp: word_le_nat_alt C_def)
  have cy: "hf_rows hf \<le> y1 + 1 \<longleftrightarrow> Y + 1 > R - 1"
    using y2 r1 by (auto simp: word_le_nat_alt R_def)
  have i11: "array_read (hf_array hf) (x1 + y1 * hf_cols hf) = Inr (sample hf X Y)"
    using cell_index [OF Xlt Ylt CR] x1(2) y1(2) len
    by (simp add: array_read_def sample_def X_def Y_def C_def R_def)
  have i12: "array_read (hf_array hf) (x1 + (y1 + 1) * hf_cols hf) = Inr (sample hf X (Y + 1))"
    if "\<not> Y + 1 > R - 1"
  proof -
    have "unat (y1 + 1) < unat (hf_rows hf)" using that y2 by (simp add: R_def)
    from cell_index [OF Xlt this CR] show ?thesis
      using x1(2) y2 len by (simp add: array_read_def sample_def X_def C_def R_def)
  qed
  have i21: "array_read (hf_array hf) (x1 + 1 + y1 * hf_cols hf) = Inr (sample hf (X + 1) Y)"
    if "\<not> X + 1 > C - 1"
  proof -
    have "unat (x1 + 1) < unat (hf_cols hf)" using that x2 by (simp add: C_def)
    from cell_index [OF this Ylt CR] show ?thesis
      using x2 y1(2) len by (simp add: array_read_def sample_def Y_def C_def R_def)
  qed
  have i22: "array_read (hf_array hf) (x1 + 1 + (y1 + 1) * hf_cols hf)
      = Inr (sample hf (X + 1) (Y + 1))"
    if "\<not> X + 1 > C - 1" and "\<not> Y + 1 > R - 1"
  proof -
    have a: "unat (x1 + 1) < unat (hf_cols hf)" using that x2 by (simp add: C_def)
    have b: "unat (y1 + 1) < unat (hf_rows hf)" using that y2 by (simp add: R_def)
    from cell_index [OF a b CR] show ?thesis
      using x2 y2 len by (simp add: array_read_def sample_def C_def R_def)
  qed
  define xF where "xF = Finite (c - real X)"
  define yF where "yF = Finite (r - real Y)"
  define xI where "xI = fsub (Finite 1) xF"
  define yI where "yI = fsub (Finite 1) yF"
  have mx: "modf (Finite c) = xF" using x1(4) by (simp add: xF_def X_def)
  have my: "modf (Finite r) = yF" using y1(4) by (simp add: yF_def Y_def)
  have code: "getHeight hf column row =
      Inr (if X + 1 > C - 1 \<and> Y + 1 > R - 1 then sample hf X Y
           else if X + 1 > C - 1 then
             fadd (fmul (sample hf X Y) yI) (fmul (sample hf X (Y + 1)) yF)
           else if Y + 1 > R - 1 then
             fadd (fmul (sample hf X Y) xI) (fmul (sample hf (X + 1) Y) xF)
           else
             fadd (fadd (fadd (fmul (sample hf X Y) (fmul xI yI))
                           (fmul (sample hf X (Y + 1)) (fmul xI yF)))
                     (fmul (sample hf (X + 1) (Y + 1)) (fmul xF yF)))
               (fmul (sample hf (X + 1) Y) (fmul xF yI)))"
    unfolding getHeight_def Let_def cc rr x1(1) y1(1) mx my sum.case cx cy
    using i11 i12 i21 i22 by (simp add: xI_def yI_def)
  have spec: "blend_spec hf c r =
      (if X + 1 > C - 1 \<and> Y + 1 > R - 1 then sample hf X Y
       else if X + 1 > C - 1 then
         fadd (fmul yI (sample hf X Y)) (fmul yF (sample hf X (Y + 1)))
       else if Y + 1 > R - 1 then
         fadd (fmul xI (sample hf X Y)) (fmul xF (sample hf (X + 1) Y))
       else
         fadd (fadd (fadd (fmul (fmul xI yI) (sample hf X Y))
                       (fmul (fmul xI yF) (sample hf X (Y + 1))))
                 (fmul (fmul xF yF) (sample hf (X + 1) (Y + 1))))
           (fmul (fmul xF yI) (sample hf (X + 1) Y)))"
    by (simp add: blend_spec_def Let_def X_def Y_def C_def R_def xF_def yF_def xI_def yI_def)
  show ?thesis
    unfolding code spec
    by (simp only: fmul_commute [of "sample hf X Y"] fmul_commute [of "sample hf X (Y + 1)"]
        fmul_commute [of "sample hf (X + 1) Y"] fmul_commute [of "sample hf (X + 1) (Y + 1)"])
qed

text \<open>
  In particular no read of \<^verbatim>\<open>getHeight\<close> leaves the buffer when the last column and
  row index convert to \<^verbatim>\<open>float\<close> exactly and no coordinate is a NaN; grids of one
  column or one row are included.
\<close>

lemma getHeight_in_bounds:
  assumes g: "is_grid hf"
    and c1: "1 \<le> unat (hf_cols hf)" and r1: "1 \<le> unat (hf_rows hf)"
    and ec: "exact_float (hf_cols hf - 1)" and er: "exact_float (hf_rows hf - 1)"
    and nc: "column \<noteq> NaN" and nr: "row \<noteq> NaN"
  shows "\<exists>v. getHeight hf column row = Inr v"
proof -
  obtain c where c: "clamp_coord column (hf_cols hf) = Finite c"
      "0 \<le> c" "c \<le> real (unat (hf_cols hf)) - 1"
    using clamp_coord_spec [OF nc ec c1] by auto
  obtain r where r: "clamp_coord row (hf_rows hf) = Finite r"
      "0 \<le> r" "r \<le> real (unat (hf_rows hf)) - 1"
    using clamp_coord_spec [OF nr er r1] by auto
  have cC: "c \<le> real (unat (hf_cols hf) - 1)" using c(3) c1 by (simp add: of_nat_diff)
  have rR: "r \<le> real (unat (hf_rows hf) - 1)" using r(3) r1 by (simp add: of_nat_diff)
  show ?thesis using getHeight_blend [OF g c1 r1 c(1,2) cC r(1,2) rR] by simp
qed

lemma clamp_coord_integral:
  assumes ex: "round_to_float x = x" and lt: "x < unat n"
  shows "clamp_coord (Finite (real x)) n = Finite (real x)"
proof -
  have n1: "unat (n - 1) = unat n - 1"
    using lt by (simp add: unat_sub word_le_nat_alt)
  have "x \<le> unat (n - 1)" using lt n1 by simp
  with ex have "x \<le> round_to_float (unat (n - 1))" by (rule round_to_float_ge_exact)
  then have "\<not> float_less (uint_to_float (n - 1)) (Finite (real x))"
    by (simp add: uint_to_float_def)
  then show ?thesis by (simp add: clamp_coord_def)
qed


lemma uint_to_float_exact:
  assumes "exact_float (n - 1)" and "1 \<le> unat n"
  shows "uint_to_float (n - 1) = Finite (real (unat n) - 1)"
proof -
  have n1: "unat (n - 1) = unat n - 1"
    using assms(2) by (simp add: unat_sub word_le_nat_alt)
  show ?thesis
    using assms n1 by (simp add: uint_to_float_def exact_float_def of_nat_diff)
qed

lemma clamp_below: "float_less v (Finite 0) \<Longrightarrow> clamp_coord v n = clamp_coord (Finite 0) n"
  by (simp add: clamp_coord_def uint_to_float_def)

lemma clamp_above:
  "float_less (uint_to_float (n - 1)) v
     \<Longrightarrow> clamp_coord v n = clamp_coord (uint_to_float (n - 1)) n"
  by (cases v) (auto simp add: clamp_coord_def uint_to_float_def)

text \<open>
  A coordinate enters \<^verbatim>\<open>getHeight\<close> through the clamp only, so a coordinate and
  the bound it is clamped to give the same result, be it a value or an error.
\<close>

lemma getHeight_clamp:
  "(float_less column (Finite 0) \<longrightarrow> getHeight hf column row = getHeight hf (Finite 0) row) \<and>
   (float_less row (Finite 0) \<longrightarrow> getHeight hf column row = getHeight hf column (Finite 0)) \<and>
   (float_less (uint_to_float (hf_cols hf - 1)) column \<longrightarrow>
      getHeight hf column row = getHeight hf (uint_to_float (hf_cols hf - 1)) row) \<and>
   (float_less (uint_to_float (hf_rows hf - 1)) row \<longrightarrow>
      getHeight hf column row = getHeight hf column (uint_to_float (hf_rows hf - 1)))"
  by (simp add: getHeight_def clamp_below [of column] clamp_below [of row]
      clamp_above [of _ column] clamp_above [of _ row])

text \<open>At a grid point both fractions are 0, and on finite samples the blend is the sample.\<close>

lemma blend_at_grid_point:
  assumes g: "is_grid hf"
    and x: "x < unat (hf_cols hf)" and y: "y < unat (hf_rows hf)"
    and fin: "all_finite (hf_array hf)"
  shows "blend_spec hf (real x) (real y) = sample hf x y"
proof -
  let ?C = "unat (hf_cols hf)" and ?R = "unat (hf_rows hf)"
  have len: "length (hf_array hf) = ?C * ?R" using g by (simp add: is_grid_def)
  have inside: "finite_binary32 (sample hf i j)" if "i < ?C" and "j < ?R" for i j
  proof -
    have "Suc j * ?C \<le> ?R * ?C" using that(2) by (intro mult_le_mono1) simp
    then have "i + j * ?C < length (hf_array hf)"
      using that(1) len by (simp add: mult.commute)
    with fin show ?thesis unfolding sample_def by (rule all_finite_nth)
  qed
  have one: "fsub (Finite 1) (Finite 0) = Finite 1"
    by (simp add: fsub_def round_to_binary32_0_1)
  have s11: "finite_binary32 (sample hf x y)" using x y by (rule inside)
  have lin: "fadd (fmul (Finite 1) (sample hf x y)) (fmul (Finite 0) s) = sample hf x y"
    if "finite_binary32 s" for s
    using s11 that by (simp add: fmul_one fmul_zero fadd_zero)
  have bil: "fadd (fadd (fadd (fmul (Finite 1) (sample hf x y)) (fmul (Finite 0) s))
                     (fmul (Finite 0) t))
               (fmul (Finite 0) u) = sample hf x y"
    if "finite_binary32 s" "finite_binary32 t" "finite_binary32 u" for s t u
    using s11 that by (simp add: fmul_one fmul_zero fadd_zero)
  show ?thesis
  proof (cases "x + 1 > ?C - 1")
    case True
    note xe = this
    show ?thesis
    proof (cases "y + 1 > ?R - 1")
      case True
      with xe show ?thesis by (simp add: blend_spec_def Let_def)
    next
      case False
      then have "finite_binary32 (sample hf x (y + 1))" using x by (intro inside) simp_all
      then show ?thesis using xe False by (simp add: blend_spec_def Let_def one lin)
    qed
  next
    case False
    note xi = this
    show ?thesis
    proof (cases "y + 1 > ?R - 1")
      case True
      have "finite_binary32 (sample hf (x + 1) y)" using xi y by (intro inside) simp_all
      then show ?thesis using xi True by (simp add: blend_spec_def Let_def one lin)
    next
      case False
      have "finite_binary32 (sample hf x (y + 1))" using False x by (intro inside) simp_all
      moreover have "finite_binary32 (sample hf (x + 1) (y + 1))"
        using False xi by (intro inside) simp_all
      moreover have "finite_binary32 (sample hf (x + 1) y)" using xi y by (intro inside) simp_all
      ultimately show ?thesis
        using xi False by (simp add: blend_spec_def Let_def one round_to_binary32_0_1 bil)
    qed
  qed
qed

lemma all_finite_set: "all_finite ss \<longleftrightarrow> (\<forall>s \<in> set ss. finite_binary32 s)"
  by (induction ss) simp_all

subsection \<open>The examples\<close>

lemma exact_float_1: "exact_float 1" and exact_float_3: "exact_float 3"
  by (rule exact_float_small, simp)+

lemma is_grid_2x2: "is_grid grid_2x2"
  by (simp add: is_grid_def grid_2x2_def)

lemma is_grid_4x4: "is_grid grid_4x4"
  by (simp add: is_grid_def grid_4x4_def)

lemma is_grid_wide: "is_grid wide_grid"
  by (simp add: is_grid_def wide_grid_def)

lemma all_finite_4x4: "all_finite (hf_array grid_4x4)"
  by (auto simp add: all_finite_set grid_4x4_def round_to_binary32_nat)

lemma uint_to_float_16777219: "uint_to_float 16777219 = Finite 16777220"
  by (simp add: uint_to_float_def round_to_float_def round_nearest_even_def bit_length.simps)

lemma wide_grid_conversions:
  "float_to_uint (Finite 16777220) = Inr 16777220"
  "float_to_uint (Finite 0) = Inr 0"
  "modf (Finite 0) = Finite 0"
  "modf (Finite 16777220) = Finite 0"
  "clamp_coord (Finite 0) 1 = Finite 0"
  "clamp_coord (Finite (- 1)) 1 = Finite 0"
  "clamp_coord (Finite 16777220) 16777220 = Finite 16777220"
  "clamp_coord PosInf 16777220 = Finite 16777220"
  by (simp_all add: truncate_real_def clamp_coord_def uint_to_float_16777219)
     (simp_all add: uint_to_float_def)

text \<open>The facts that evaluate \<^verbatim>\<open>getHeight\<close> and its specification on a small grid.\<close>

lemmas getHeight_eval =
  getHeight_def getHeight_spec_def blend_spec_def sample_def clamp_coord_def uint_to_float_def
  round_to_float_def round_nearest_even_def truncate_real_def array_read_def fsub_def
  word_le_nat_alt binary32_eval

text \<open>
  Two samplings in which the \<^verbatim>\<open>float\<close> arithmetic shows.  Half way between the samples
  \<open>2\<^sup>2\<^sup>4\<close> and 1 the sum \<open>8388608.5\<close> is a tie between two binary32 values and
  is rounded to the even one.  At the coordinates \<^verbatim>\<open>0.1f\<close> and \<^verbatim>\<open>0.7f\<close> in the
  grid of the samples 1, 2, 3, 4 the roundings of the weights and of the products
  add up to the result \<open>2.5\<close>; the blend of the same weights over the reals is
  \<open>2.4999999776\<close>.
\<close>

lemma getHeight_rounds_tie:
  "getHeight steep_grid (Finite (1 / 2)) (Finite 0) = Inr (Finite 8388608)"
  by (simp add: getHeight_eval steep_grid_def)

lemma getHeight_rounds_weights:
  "getHeight grid_2x2 (Finite (13421773 / 134217728)) (Finite (11744051 / 16777216))
     = Inr (Finite (5 / 2))"
  by (simp add: getHeight_eval grid_2x2_def)

text \<open>
  C1 (as amended).  For every grid with at least one column and one row whose last
  column index and last row index convert to \<^verbatim>\<open>float\<close> exactly, and for every
  coordinate pair without a NaN (infinities included), \<^verbatim>\<open>getHeight\<close> returns a
  value, and it is the value of the specification: the coordinates clamped into
  \<open>[0, columns - 1]\<close> and \<open>[0, rows - 1]\<close>, \<open>x1\<close>, \<open>y1\<close> their floors, and the
  single sample, the linear interpolation along one axis, or the bilinear blend,
  as \<open>x2\<close> and \<open>y2\<close> exceed the last index or not, the weights and the weighted
  sums computed in \<^verbatim>\<open>float\<close> arithmetic.
\<close>

theorem getHeight_refines_spec:
  assumes g: "is_grid hf"
    and c1: "1 \<le> unat (hf_cols hf)" and r1: "1 \<le> unat (hf_rows hf)"
    and ec: "exact_float (hf_cols hf - 1)" and er: "exact_float (hf_rows hf - 1)"
    and nc: "column \<noteq> NaN" and nr: "row \<noteq> NaN"
  shows "\<exists>v. getHeight hf column row = Inr v \<and> getHeight_spec hf column row = Some v"
proof -
  obtain c where c: "clamp_coord column (hf_cols hf) = Finite c"
      "clamp_spec column (real (unat (hf_cols hf)) - 1) = Some c"
      "0 \<le> c" "c \<le> real (unat (hf_cols hf)) - 1"
    using clamp_coord_spec [OF nc ec c1] by auto
  obtain r where r: "clamp_coord row (hf_rows hf) = Finite r"
      "clamp_spec row (real (unat (hf_rows hf)) - 1) = Some r"
      "0 \<le> r" "r \<le> real (unat (hf_rows hf)) - 1"
    using clamp_coord_spec [OF nr er r1] by auto
  have cC: "c \<le> real (unat (hf_cols hf) - 1)" using c(4) c1 by (simp add: of_nat_diff)
  have rR: "r \<le> real (unat (hf_rows hf) - 1)" using r(4) r1 by (simp add: of_nat_diff)
  have "getHeight hf column row = Inr (blend_spec hf c r)"
    using getHeight_blend [OF g c1 r1 c(1,3) cC r(1,3) rR] .
  moreover have "getHeight_spec hf column row = Some (blend_spec hf c r)"
    using c(2) r(2) by (simp add: getHeight_spec_def)
  ultimately show ?thesis by simp
qed

theorem getHeight_refines_spec_witness:
  "is_grid steep_grid \<and> 1 \<le> unat (hf_cols steep_grid) \<and> 1 \<le> unat (hf_rows steep_grid)
   \<and> exact_float (hf_cols steep_grid - 1) \<and> exact_float (hf_rows steep_grid - 1)
   \<and> Finite (1 / 2) \<noteq> NaN \<and> Finite 0 \<noteq> NaN \<and> PosInf \<noteq> NaN
   \<and> getHeight_spec steep_grid (Finite (1 / 2)) (Finite 0) = Some (Finite 8388608)
   \<and> getHeight steep_grid (Finite (1 / 2)) (Finite 0) = Inr (Finite 8388608)
   \<and> getHeight_spec steep_grid (Finite (1 / 2)) PosInf = Some (Finite (7 / 2))
   \<and> getHeight steep_grid (Finite (1 / 2)) PosInf = Inr (Finite (7 / 2))"
proof -
  have g: "is_grid steep_grid" by (simp add: is_grid_def steep_grid_def)
  have e: "exact_float (hf_cols steep_grid - 1)" "exact_float (hf_rows steep_grid - 1)"
    using exact_float_1 by (simp_all add: steep_grid_def)
  have d: "1 \<le> unat (hf_cols steep_grid)" "1 \<le> unat (hf_rows steep_grid)"
    by (simp_all add: steep_grid_def)
  have s1: "getHeight_spec steep_grid (Finite (1 / 2)) (Finite 0) = Some (Finite 8388608)"
    by (simp add: getHeight_eval steep_grid_def)
  have s2: "getHeight_spec steep_grid (Finite (1 / 2)) PosInf = Some (Finite (7 / 2))"
    by (simp add: getHeight_eval steep_grid_def)
  have c1: "getHeight steep_grid (Finite (1 / 2)) (Finite 0) = Inr (Finite 8388608)"
    using getHeight_refines_spec [OF g d e, of "Finite (1 / 2)" "Finite 0"] s1 by auto
  have c2: "getHeight steep_grid (Finite (1 / 2)) PosInf = Inr (Finite (7 / 2))"
    using getHeight_refines_spec [OF g d e, of "Finite (1 / 2)" PosInf] s2 by auto
  show ?thesis using g d e s1 s2 c1 c2 by simp
qed

text \<open>
  C1 as stated fails.  A NaN passes both comparisons of the clamp, and its
  conversion to \<^verbatim>\<open>unsigned int\<close> is undefined.  In a grid of 16777220 columns the
  last column index 16777219 rounds to 16777220.0, so a column coordinate is
  clamped to the column count and the sample is read past the buffer.
\<close>

theorem getHeight_every_input_counterexample:
  "getHeight grid_2x2 NaN (Finite 0) = Inl UndefinedConversion
   \<and> getHeight wide_grid PosInf (Finite 0) = Inl OutOfBoundsRead"
proof
  show "getHeight grid_2x2 NaN (Finite 0) = Inl UndefinedConversion"
    by (simp add: getHeight_def grid_2x2_def clamp_coord_def uint_to_float_def)
  show "getHeight wide_grid PosInf (Finite 0) = Inl OutOfBoundsRead"
    unfolding getHeight_def wide_grid_def Let_def
    apply (simp only: HeightField.select_convs wide_grid_conversions sum.case)
    apply (simp add: array_read_def)
    done
qed

text \<open>
  C2 (as amended).  In a grid whose samples are all finite, at a grid point, that
  is at a pair of integral coordinates inside the grid (as \<^verbatim>\<open>float\<close> arguments, so
  integers that a \<^verbatim>\<open>float\<close> represents), \<^verbatim>\<open>getHeight\<close> returns the stored sample
  \<open>heights[x + y * columns]\<close>: the weights are 1 and 0, and no product or sum
  rounds.
\<close>

theorem getHeight_at_grid_point:
  assumes g: "is_grid hf"
    and x: "x < unat (hf_cols hf)" and y: "y < unat (hf_rows hf)"
    and ex: "round_to_float x = x" and ey: "round_to_float y = y"
    and fin: "all_finite (hf_array hf)"
  shows "getHeight hf (Finite (real x)) (Finite (real y))
           = Inr (hf_array hf ! (x + y * unat (hf_cols hf)))"
proof -
  have c1: "1 \<le> unat (hf_cols hf)" and r1: "1 \<le> unat (hf_rows hf)" using x y by simp_all
  have "x \<le> unat (hf_cols hf) - 1" using x by simp
  then have cx: "real x \<le> real (unat (hf_cols hf) - 1)" by (rule of_nat_mono)
  have "y \<le> unat (hf_rows hf) - 1" using y by simp
  then have ry: "real y \<le> real (unat (hf_rows hf) - 1)" by (rule of_nat_mono)
  have "getHeight hf (Finite (real x)) (Finite (real y)) = Inr (blend_spec hf (real x) (real y))"
    using getHeight_blend [OF g c1 r1 clamp_coord_integral [OF ex x] _ cx
        clamp_coord_integral [OF ey y] _ ry] by simp
  also have "blend_spec hf (real x) (real y) = sample hf x y"
    using g x y fin by (rule blend_at_grid_point)
  finally show ?thesis by (simp add: sample_def)
qed

theorem getHeight_at_grid_point_witness:
  "is_grid grid_4x4 \<and> 3 < unat (hf_cols grid_4x4) \<and> 3 < unat (hf_rows grid_4x4)
   \<and> round_to_float 3 = 3 \<and> round_to_float 1 = 1 \<and> round_to_float 2 = 2
   \<and> all_finite (hf_array grid_4x4)
   \<and> hf_array grid_4x4 ! 15 = Finite 15
   \<and> getHeight grid_4x4 (Finite 3) (Finite 3) = Inr (Finite 15)
   \<and> hf_array grid_4x4 ! 9 = Finite 9
   \<and> getHeight grid_4x4 (Finite 1) (Finite 2) = Inr (Finite 9)"
proof -
  have r: "round_to_float 3 = 3" "round_to_float 1 = 1" "round_to_float 2 = 2"
    by (rule round_to_float_small, simp)+
  have d: "3 < unat (hf_cols grid_4x4)" "3 < unat (hf_rows grid_4x4)"
      "1 < unat (hf_cols grid_4x4)" "2 < unat (hf_rows grid_4x4)"
    by (simp_all add: grid_4x4_def)
  have v: "hf_array grid_4x4 ! 15 = Finite 15" "hf_array grid_4x4 ! 9 = Finite 9"
    by (simp_all add: grid_4x4_def)
  have 1: "getHeight grid_4x4 (Finite 3) (Finite 3) = Inr (Finite 15)"
    using getHeight_at_grid_point [OF is_grid_4x4 d(1,2) r(1,1) all_finite_4x4] v
    by (simp add: grid_4x4_def)
  have 2: "getHeight grid_4x4 (Finite 1) (Finite 2) = Inr (Finite 9)"
    using getHeight_at_grid_point [OF is_grid_4x4 d(3,4) r(2,3) all_finite_4x4] v
    by (simp add: grid_4x4_def)
  show ?thesis using is_grid_4x4 d r all_finite_4x4 v 1 2 by simp
qed

text \<open>
  C2 as stated fails for a grid with a sample that is not finite: the neighbours of
  the grid point are multiplied by the weight 0, and \<open>0 * \<infinity>\<close> is a NaN.  In the
  grid of the samples 1, \<open>\<infinity>\<close>, 3, 4 the sampling at the grid point \<open>(0, 0)\<close> is a NaN,
  not the stored sample 1.
\<close>

theorem getHeight_at_grid_point_counterexample:
  "is_grid infinite_grid \<and> hf_array infinite_grid ! 0 = Finite 1
   \<and> getHeight infinite_grid (Finite 0) (Finite 0) = Inr NaN"
  by (simp add: is_grid_def infinite_grid_def getHeight_eval)

text \<open>
  C3 (as amended).  For every grid with at least one column and one row whose last
  column index and last row index convert to \<^verbatim>\<open>float\<close> exactly, and for every
  coordinate pair without a NaN, \<^verbatim>\<open>getHeight\<close> returns a value and no error, and
  coordinates outside the grid saturate: a negative column gives the value at
  column 0, a column above \<open>columns - 1\<close> the value at \<open>columns - 1\<close>, and likewise
  for rows.
\<close>

theorem getHeight_saturates:
  assumes g: "is_grid hf"
    and c1: "1 \<le> unat (hf_cols hf)" and r1: "1 \<le> unat (hf_rows hf)"
    and ec: "exact_float (hf_cols hf - 1)" and er: "exact_float (hf_rows hf - 1)"
    and nc: "column \<noteq> NaN" and nr: "row \<noteq> NaN"
  shows "\<exists>v. getHeight hf column row = Inr v
    \<and> (float_less column (Finite 0) \<longrightarrow> getHeight hf (Finite 0) row = Inr v)
    \<and> (float_less row (Finite 0) \<longrightarrow> getHeight hf column (Finite 0) = Inr v)
    \<and> (float_less (Finite (real (unat (hf_cols hf)) - 1)) column \<longrightarrow>
          getHeight hf (Finite (real (unat (hf_cols hf)) - 1)) row = Inr v)
    \<and> (float_less (Finite (real (unat (hf_rows hf)) - 1)) row \<longrightarrow>
          getHeight hf column (Finite (real (unat (hf_rows hf)) - 1)) = Inr v)"
proof -
  obtain v where v: "getHeight hf column row = Inr v"
    using getHeight_in_bounds [OF g c1 r1 ec er nc nr] by blast
  note uc = uint_to_float_exact [OF ec c1] and ur = uint_to_float_exact [OF er r1]
  show ?thesis
    using getHeight_clamp [of column hf row] v unfolding uc ur by auto
qed

theorem getHeight_saturates_witness:
  "is_grid grid_2x2 \<and> 1 \<le> unat (hf_cols grid_2x2) \<and> 1 \<le> unat (hf_rows grid_2x2)
   \<and> exact_float (hf_cols grid_2x2 - 1) \<and> exact_float (hf_rows grid_2x2 - 1)
   \<and> float_less NegInf (Finite 0) \<and> float_less (Finite (- 3)) (Finite 0)
   \<and> float_less (Finite (real (unat (hf_cols grid_2x2)) - 1)) (Finite 7)
   \<and> float_less (Finite (real (unat (hf_rows grid_2x2)) - 1)) PosInf
   \<and> getHeight grid_2x2 (Finite 0) (Finite (1 / 2)) = Inr (Finite 2)
   \<and> getHeight grid_2x2 NegInf (Finite (1 / 2)) = Inr (Finite 2)
   \<and> getHeight grid_2x2 (Finite (1 / 2)) (Finite 0) = Inr (Finite (3 / 2))
   \<and> getHeight grid_2x2 (Finite (1 / 2)) (Finite (- 3)) = Inr (Finite (3 / 2))
   \<and> getHeight grid_2x2 (Finite 1) (Finite (1 / 2)) = Inr (Finite 3)
   \<and> getHeight grid_2x2 (Finite 7) (Finite (1 / 2)) = Inr (Finite 3)
   \<and> getHeight grid_2x2 (Finite (1 / 2)) (Finite 1) = Inr (Finite (7 / 2))
   \<and> getHeight grid_2x2 (Finite (1 / 2)) PosInf = Inr (Finite (7 / 2))"
proof -
  have e: "exact_float (hf_cols grid_2x2 - 1)" "exact_float (hf_rows grid_2x2 - 1)"
    using exact_float_1 by (simp_all add: grid_2x2_def)
  have d: "1 \<le> unat (hf_cols grid_2x2)" "1 \<le> unat (hf_rows grid_2x2)"
    by (simp_all add: grid_2x2_def)
  have u: "real (unat (hf_cols grid_2x2)) - 1 = 1" "real (unat (hf_rows grid_2x2)) - 1 = 1"
    by (simp_all add: grid_2x2_def)
  have b: "getHeight grid_2x2 (Finite 0) (Finite (1 / 2)) = Inr (Finite 2)"
      "getHeight grid_2x2 (Finite (1 / 2)) (Finite 0) = Inr (Finite (3 / 2))"
      "getHeight grid_2x2 (Finite 1) (Finite (1 / 2)) = Inr (Finite 3)"
      "getHeight grid_2x2 (Finite (1 / 2)) (Finite 1) = Inr (Finite (7 / 2))"
    by (simp_all add: getHeight_eval grid_2x2_def)
  have 1: "getHeight grid_2x2 NegInf (Finite (1 / 2)) = Inr (Finite 2)"
    using getHeight_saturates [OF is_grid_2x2 d e, of NegInf "Finite (1 / 2)"] b(1) by auto
  have 2: "getHeight grid_2x2 (Finite (1 / 2)) (Finite (- 3)) = Inr (Finite (3 / 2))"
    using getHeight_saturates [OF is_grid_2x2 d e, of "Finite (1 / 2)" "Finite (- 3)"] b(2)
    by auto
  have 3: "getHeight grid_2x2 (Finite 7) (Finite (1 / 2)) = Inr (Finite 3)"
    using getHeight_saturates [OF is_grid_2x2 d e, of "Finite 7" "Finite (1 / 2)"] b(3)
    unfolding u by auto
  have 4: "getHeight grid_2x2 (Finite (1 / 2)) PosInf = Inr (Finite (7 / 2))"
    using getHeight_saturates [OF is_grid_2x2 d e, of "Finite (1 / 2)" PosInf] b(4)
    unfolding u by auto
  have f: "float_less (Finite (real (unat (hf_cols grid_2x2)) - 1)) (Finite 7)"
      "float_less (Finite (real (unat (hf_rows grid_2x2)) - 1)) PosInf"
    unfolding u by simp_all
  show ?thesis using is_grid_2x2 d e f b 1 2 3 4 by simp
qed

text \<open>
  C3 as stated fails: not every call returns a value.  With a row that is a NaN the
  result for a negative column is that of the undefined conversion of the NaN; and
  in the grid of 16777220 columns a column above the last one is clamped to the
  column count, so the read is past the buffer.
\<close>

theorem getHeight_saturates_counterexample:
  "float_less (Finite (- 1)) (Finite 0)
   \<and> getHeight grid_2x2 (Finite (- 1)) NaN = Inl UndefinedConversion
   \<and> float_less (Finite (real (unat (hf_cols wide_grid)) - 1)) PosInf
   \<and> getHeight wide_grid PosInf (Finite (- 1)) = Inl OutOfBoundsRead"
proof -
  have 1: "getHeight grid_2x2 (Finite (- 1)) NaN = Inl UndefinedConversion"
    by (simp add: getHeight_def grid_2x2_def clamp_coord_def uint_to_float_def truncate_real_def)
  have 2: "getHeight wide_grid PosInf (Finite (- 1)) = Inl OutOfBoundsRead"
    unfolding getHeight_def wide_grid_def Let_def
    apply (simp only: HeightField.select_convs wide_grid_conversions sum.case)
    apply (simp add: array_read_def)
    done
  show ?thesis using 1 2 by simp
qed

text \<open>
  C10.  The claim that no read of \<^verbatim>\<open>getHeight\<close> leaves the buffer fails on the code:
  in the grid of one row and 16777220 columns the clamp bound \<open>columns - 1\<close>,
  converted to \<^verbatim>\<open>float\<close>, is 16777220.0, the column coordinate 16777220.0 passes the
  clamp, \<open>x1\<close> is the column count, and \<open>_array[x1 + y1 * _cols]\<close> is the element
  one past the end of the buffer.
\<close>

theorem getHeight_reads_past_buffer:
  "is_grid wide_grid \<and> unat (hf_cols wide_grid) * unat (hf_rows wide_grid) = 16777220
   \<and> getHeight wide_grid (Finite 16777220) (Finite 0) = Inl OutOfBoundsRead"
proof -
  have "getHeight wide_grid (Finite 16777220) (Finite 0) = Inl OutOfBoundsRead"
    unfolding getHeight_def wide_grid_def Let_def
    apply (simp only: HeightField.select_convs wide_grid_conversions sum.case)
    apply (simp add: array_read_def)
    done
  then show ?thesis using is_grid_wide by (simp add: wide_grid_def)
qed

section \<open>Properties of the packed-channel height decoder\<close>





lemma uchar_to_float_nat: "uchar_to_float c = real (unat c)" "unat c < 256"
  using unsigned_less [of c, where 'a = nat] by (simp_all add: uchar_to_float_def)

lemma float_ops_finite:
  "fmul (Finite a) (Finite b) = round_to_binary32 (a * b)"
  "fadd (Finite a) (Finite b) = round_to_binary32 (a + b)"
  "fdiv (Finite a) (Finite 65536) = round_to_binary32 (a / 65536)"
  "fdiv (Finite a) (Finite 65535) = round_to_binary32 (a / 65535)"
  "fdiv (Finite a) (Finite 255) = round_to_binary32 (a / 255)"
  by simp_all

lemma normalizedHeightPacked_exact:
  fixes r g b :: uchar
  shows "normalizedHeightPacked_binary32 (Finite (uchar_to_float r)) (Finite (uchar_to_float g))
           (Finite (uchar_to_float b))
         = Finite (normalizedHeightPacked (uchar_to_float r) (uchar_to_float g)
                     (uchar_to_float b))"
proof -
  define R G B where "R = unat r" and "G = unat g" and "B = unat b"
  have f: "uchar_to_float r = real R" "uchar_to_float g = real G" "uchar_to_float b = real B"
    and bd: "R < 256" "G < 256" "B < 256"
    unfolding R_def G_def B_def by (rule uchar_to_float_nat)+
  have 1: "round_to_binary32 (256 * real R) = Finite (256 * real R)"
    using bd by (intro round_dyadic [where k = "256 * R" and j = 0]) simp_all
  have 2: "round_to_binary32 (256 * real R + real G) = Finite (256 * real R + real G)"
    using bd by (intro round_dyadic [where k = "256 * R + G" and j = 0]) simp_all
  have 3: "round_to_binary32 (0.00390625 * real B) = Finite (0.00390625 * real B)"
    using bd by (intro round_dyadic [where k = B and j = 8]) simp_all
  have 4: "round_to_binary32 (256 * real R + real G + 0.00390625 * real B)
      = Finite (256 * real R + real G + 0.00390625 * real B)"
    using bd by (intro round_dyadic [where k = "(256 * R + G) * 256 + B" and j = 8]) simp_all
  have 5: "round_to_binary32 ((256 * real R + real G + 0.00390625 * real B) / 65536)
      = Finite ((256 * real R + real G + 0.00390625 * real B) / 65536)"
    using bd by (intro round_dyadic [where k = "(256 * R + G) * 256 + B" and j = 24]) simp_all
  show ?thesis
    unfolding normalizedHeightPacked_binary32_def normalizedHeightPacked_def f
    by (simp only: float_ops_finite 1 2 3 4 5)
qed




section \<open>The loops of the loaders\<close>

text \<open>
  An \<^verbatim>\<open>int\<close> below \<open>2\<^sup>3\<^sup>1\<close> as an unsigned word is its own value, so an \<^verbatim>\<open>int\<close> index
  into a buffer of fewer than \<open>2\<^sup>3\<^sup>1\<close> elements is in range when its unsigned
  value is.
\<close>

lemma sint_small:
  fixes i :: cint
  assumes "unat i < 2 ^ 31"
  shows "sint i = int (unat i)"
proof -
  have "int (unat i) < int (2 ^ 31)" using assms by (rule iffD2 [OF of_nat_less_iff])
  then have u: "uint i < 2 ^ 31" by (simp only: uint_nat [symmetric] of_nat_power of_nat_numeral)
  have "0 \<le> uint i" by simp
  then have "- (2 ^ 31) \<le> uint i" by (rule order_trans [rotated]) simp
  with u have "signed_take_bit 31 (uint i) = uint i"
    by (intro signed_take_bit_int_eq_self)
  then have "sint i = uint i" by (simp add: sint_uint)
  then show ?thesis by (simp only: uint_nat)
qed

lemma unat_succ_small:
  fixes i :: cint
  assumes "unat i < 2 ^ 31"
  shows "unat (i + 1) = unat i + 1"
proof -
  have "unat i + 1 < 2 ^ 32" using assms by simp
  then show ?thesis by (simp add: unat_word_ariths)
qed

lemma array_write_int_ok:
  assumes "unat i < length a" and "length a < 2 ^ 31"
  shows "array_write_int a i v = Inr (a[unat i := v])"
proof -
  have "unat i < 2 ^ 31" using assms by linarith
  then have "sint i = int (unat i)" by (rule sint_small)
  then show ?thesis using assms(1) by (simp add: array_write_int_def)
qed

lemma array_read_int_ok:
  assumes "unat i < length a" and "length a < 2 ^ 31"
  shows "array_read_int a i = Inr (a ! unat i)"
proof -
  have "unat i < 2 ^ 31" using assms by linarith
  then have "sint i = int (unat i)" by (rule sint_small)
  then show ?thesis using assms(1) by (simp add: array_read_int_def)
qed

lemma fill_row_result:
  assumes cells: "\<And>k. unat x \<le> k \<Longrightarrow> k < unat w \<Longrightarrow> cell y (word_of_nat k) = Inr (f k)"
    and room: "unat i + (unat w - unat x) \<le> length heights"
    and small: "length heights < 2 ^ 31"
  shows "fill_row cell w y x (heights, i) =
           Inr (take (unat i) heights @ map f [unat x ..< unat w]
                  @ drop (unat i + (unat w - unat x)) heights,
                i + word_of_nat (unat w - unat x))"
  using cells room small
proof (induction "unat w - unat x" arbitrary: x heights i)
  case 0
  then have "\<not> x < w" by (simp add: word_less_nat_alt)
  moreover have "unat w \<le> unat x" using 0 by simp
  ultimately show ?case using 0 by (simp add: fill_row.simps [of cell w y x])
next
  case (Suc n)
  have xw: "unat x < unat w" using Suc.hyps(2) by simp
  then have lt: "x < w" by (simp add: word_less_nat_alt)
  have x1: "unat (x + 1) = unat x + 1" using xw by (rule succ_index)
  have c: "cell y x = Inr (f (unat x))" using Suc.prems(1) [of "unat x"] xw by simp
  have il: "unat i < length heights" using Suc.prems(2) xw by simp
  have w: "array_write_int heights i (f (unat x)) = Inr (heights[unat i := f (unat x)])"
    using il Suc.prems(3) by (rule array_write_int_ok)
  have "unat i < 2 ^ 31" using il Suc.prems(3) by linarith
  then have i1: "unat (i + 1) = unat i + 1" by (rule unat_succ_small)
  let ?h = "heights[unat i := f (unat x)]"
  have n: "n = unat w - unat (x + 1)" using Suc.hyps(2) x1 by simp
  have IH: "fill_row cell w y (x + 1) (?h, i + 1) =
      Inr (take (unat (i + 1)) ?h @ map f [unat (x + 1) ..< unat w]
             @ drop (unat (i + 1) + (unat w - unat (x + 1))) ?h,
           i + 1 + word_of_nat (unat w - unat (x + 1)))"
  proof (rule Suc.hyps(1) [OF n])
    show "cell y (word_of_nat k) = Inr (f k)" if "unat (x + 1) \<le> k" "k < unat w" for k
      using Suc.prems(1) [of k] that x1 by simp
    show "unat (i + 1) + (unat w - unat (x + 1)) \<le> length ?h"
      using Suc.prems(2) xw i1 x1 by simp
    show "length ?h < 2 ^ 31" using Suc.prems(3) by simp
  qed
  have t: "take (unat (i + 1)) ?h = take (unat i) heights @ [f (unat x)]"
    using il by (simp add: i1 take_Suc_conv_app_nth)
  have "unat (i + 1) + (unat w - unat (x + 1)) = unat i + (unat w - unat x)"
    using xw by (simp add: i1 x1)
  then have d: "drop (unat (i + 1) + (unat w - unat (x + 1))) ?h
      = drop (unat i + (unat w - unat x)) heights"
    using xw by (simp only: drop_update_cancel)
  have u: "map f [unat x ..< unat w] = f (unat x) # map f [unat (x + 1) ..< unat w]"
    using xw by (simp add: upt_conv_Cons x1)
  have wd: "i + 1 + word_of_nat (unat w - unat (x + 1)) = i + word_of_nat (unat w - unat x)"
  proof -
    have "unat w - unat x = Suc (unat w - unat (x + 1))" using xw by (simp add: x1)
    then show ?thesis by simp
  qed
  have step: "fill_row cell w y x (heights, i) = fill_row cell w y (x + 1) (?h, i + 1)"
    using lt c w by (simp add: fill_row.simps [of cell w y x heights i])
  show ?case unfolding step IH t d wd u by simp
qed

text \<open>
  The outer loop, started at row \<open>n - 1\<close>, fills \<open>n\<close> rows of \<open>w\<close> cells each from
  position \<open>i\<close> on: first row \<open>n - 1\<close>, last row \<open>0\<close>.
\<close>

lemma fill_rows_result:
  assumes cells: "\<And>r k. r < n \<Longrightarrow> k < unat w \<Longrightarrow> cell (word_of_nat r) (word_of_nat k) = Inr (f r k)"
    and y: "sint y = int n - 1"
    and room: "unat i + n * unat w \<le> length heights"
    and small: "length heights < 2 ^ 31"
  shows "fill_rows cell w y (heights, i) =
           Inr (take (unat i) heights
                  @ concat (map (\<lambda>r. map (f r) [0 ..< unat w]) (rev [0 ..< n]))
                  @ drop (unat i + n * unat w) heights,
                i + word_of_nat (n * unat w))"
  using cells y room small
proof (induction n arbitrary: y heights i)
  case 0
  then have "\<not> 0 \<le>s y" by (simp add: word_sle_eq)
  then have "fill_rows cell w y (heights, i) = Inr (heights, i)"
    by (simp add: fill_rows.simps [of cell w y])
  then show ?case by simp
next
  case (Suc m)
  let ?W = "unat w"
  have sy: "sint y = int m" using Suc.prems(2) by simp
  then have nonneg: "0 \<le>s y" by (simp add: word_sle_eq)
  have yw: "y = word_of_nat m"
  proof -
    have "word_of_int (sint y) = y" by simp
    then show ?thesis by (simp add: sy)
  qed
  have il: "unat i + ?W \<le> length heights" using Suc.prems(3) by simp
  have row: "fill_row cell w y 0 (heights, i) =
      Inr (take (unat i) heights @ map (f m) [unat (0 :: uint) ..< ?W]
             @ drop (unat i + (?W - unat (0 :: uint))) heights,
           i + word_of_nat (?W - unat (0 :: uint)))"
  proof (rule fill_row_result)
    show "cell y (word_of_nat k) = Inr (f m k)" if "k < ?W" for k
      using Suc.prems(1) [of m k] that by (simp add: yw)
    show "unat i + (?W - unat (0 :: uint)) \<le> length heights" using il by simp
    show "length heights < 2 ^ 31" by (rule Suc.prems(4))
  qed
  let ?h = "take (unat i) heights @ map (f m) [0 ..< ?W] @ drop (unat i + ?W) heights"
  let ?i = "i + w"
  have row': "fill_row cell w y 0 (heights, i) = Inr (?h, ?i)" using row by simp
  have lenh: "length ?h = length heights" using il by simp
  have ui: "unat ?i = unat i + ?W"
  proof -
    have "unat i + ?W < 2 ^ 32" using il Suc.prems(4) by simp
    then show ?thesis by (simp add: unat_word_ariths)
  qed
  have sy1: "sint (y - 1) = int m - 1"
    using sy sint_lt [of y] by (simp add: sint_word_ariths signed_take_bit_int_eq_self)
  have IH: "fill_rows cell w (y - 1) (?h, ?i) =
      Inr (take (unat ?i) ?h
             @ concat (map (\<lambda>r. map (f r) [0 ..< ?W]) (rev [0 ..< m]))
             @ drop (unat ?i + m * ?W) ?h,
           ?i + word_of_nat (m * ?W))"
  proof (rule Suc.IH)
    show "cell (word_of_nat r) (word_of_nat k) = Inr (f r k)" if "r < m" "k < ?W" for r k
      using Suc.prems(1) [of r k] that by simp
    show "sint (y - 1) = int m - 1" by (rule sy1)
    show "unat ?i + m * ?W \<le> length ?h" unfolding ui lenh using Suc.prems(3) by simp
    show "length ?h < 2 ^ 31" unfolding lenh by (rule Suc.prems(4))
  qed
  have t: "take (unat ?i) ?h = take (unat i) heights @ map (f m) [0 ..< ?W]"
    unfolding ui using il by simp
  have d: "drop (unat ?i + m * ?W) ?h = drop (unat i + Suc m * ?W) heights"
    unfolding ui using il by (simp add: add.commute add.left_commute)
  have wd: "?i + word_of_nat (m * ?W) = i + word_of_nat (Suc m * ?W)" by simp
  have step: "fill_rows cell w y (heights, i) = fill_rows cell w (y - 1) (?h, ?i)"
    using nonneg row' by (simp add: fill_rows.simps [of cell w y])
  show ?case unfolding step IH t d wd by simp
qed

lemma nth_concat_rows:
  assumes "\<forall>row \<in> set rows. length row = W" and "r < length rows" and "x < W"
  shows "concat rows ! (x + r * W) = rows ! r ! x"
  using assms
proof (induction rows arbitrary: r)
  case Nil
  then show ?case by simp
next
  case (Cons row rows)
  show ?case
  proof (cases r)
    case 0
    then show ?thesis using Cons.prems by (simp add: nth_append)
  next
    case (Suc r')
    then show ?thesis using Cons.prems Cons.IH [of r'] by (simp add: nth_append)
  qed
qed

lemma filled_cell:
  assumes "r < H" and "x < W"
  shows "concat (map (\<lambda>r. map (f r) [0 ..< W]) (rev [0 ..< H])) ! (x + r * W) = f (H - 1 - r) x"
proof -
  let ?rows = "map (\<lambda>r. map (f r) [0 ..< W]) (rev [0 ..< H])"
  have "concat ?rows ! (x + r * W) = ?rows ! r ! x"
    using assms by (intro nth_concat_rows) auto
  also have "?rows ! r = map (f (H - 1 - r)) [0 ..< W]"
    using assms(1) by (simp add: rev_nth)
  finally show ?thesis using assms(2) by simp
qed

lemma filled_length:
  "length (concat (map (\<lambda>r. map (f r) [0 ..< W]) (rev [0 ..< H]))) = H * W"
  by (induction H) simp_all

lemma unat_word_of_nat_small:
  assumes "N < 2 ^ 32"
  shows "unat (word_of_nat N :: uint) = N"
  using assms by (simp add: unat_of_nat)

lemma fill_rows_neg:
  assumes "sint y < 0"
  shows "fill_rows cell w y st = Inr st"
proof -
  have "\<not> 0 \<le>s y" using assms by (simp add: word_sle_eq)
  then show ?thesis by (simp add: fill_rows.simps [of cell w y])
qed

lemma rows_visited:
  fixes height :: uint
  assumes "unat height \<le> 2 ^ 31"
  shows "sint (height - 1) = int (unat height) - 1"
proof (cases "height = 0")
  case True
  then show ?thesis by simp
next
  case False
  then have pos: "0 < unat height" by (simp add: unat_gt_0)
  then have u: "unat (height - 1) = unat height - 1"
    by (simp add: unat_sub word_le_nat_alt)
  have "unat height - 1 < 2 ^ 31" using assms pos by simp
  then have "unat (height - 1) < 2 ^ 31" by (simp only: u)
  then have "sint (height - 1) = int (unat (height - 1))" by (rule sint_small)
  also have "\<dots> = int (unat height - 1)" by (simp only: u)
  also have "\<dots> = int (unat height) - 1" using pos by (simp add: of_nat_diff)
  finally show ?thesis .
qed

lemma pixel_index:
  fixes w :: uint
  assumes r: "r < H" and k: "k < unat w" and b: "unat w * H * ps < 2 ^ 31" and ps: "j < ps"
  shows "unat ((word_of_nat r * w + word_of_nat k) * word_of_nat ps + word_of_nat j :: uint)
           = (r * unat w + k) * ps + j"
    and "(r * unat w + k) * ps + j < unat w * H * ps"
proof -
  have "Suc r * unat w \<le> H * unat w" using r by (intro mult_le_mono1) simp
  then have "r * unat w + k < unat w * H" using k by (simp add: mult.commute)
  then have "Suc (r * unat w + k) * ps \<le> unat w * H * ps"
    by (intro mult_le_mono1) simp
  then show lt: "(r * unat w + k) * ps + j < unat w * H * ps" using ps by simp
  have "(word_of_nat r * w + word_of_nat k) * word_of_nat ps + word_of_nat j
      = (word_of_nat ((r * unat w + k) * ps + j) :: uint)"
    by simp
  moreover have "(r * unat w + k) * ps + j < 2 ^ 32" using lt b by simp
  ultimately show "unat ((word_of_nat r * w + word_of_nat k) * word_of_nat ps + word_of_nat j :: uint)
           = (r * unat w + k) * ps + j"
    by (simp only: unat_word_of_nat_small)
qed

section \<open>The extension of the path\<close>

lemma toupper_png: "map toupper ''.png'' = ''.PNG''" "map toupper ''.raw'' = ''.RAW''"
  "map toupper ''.PnG'' = ''.PNG''"
  by code_simp+

lemma toupper_dot: "toupper c = CHR ''.'' \<longleftrightarrow> c = CHR ''.''"
proof (cases "(97::nat) \<le> of_char c \<and> of_char c \<le> (122::nat)")
  case True
  then have "(of_char c - 32 :: nat) < 256" by arith
  then have "(of_char (char_of (of_char c - (32::nat))) :: nat) = of_char c - 32"
    by (simp only: of_char_of mod_less)
  with True have "(of_char (toupper c) :: nat) \<noteq> 46" "(of_char c :: nat) \<noteq> 46"
    by (auto simp: toupper_def)
  then show ?thesis by auto
next
  case False
  then have "toupper c = c" unfolding toupper_def by (rule if_not_P)
  then show ?thesis by simp
qed

lemma four_chars:
  assumes "4 < length path"
  obtains a b c d where "drop (length path - 4) path = [a, b, c, d]"
proof -
  define e where "e = drop (length path - 4) path"
  have "length e = Suc (Suc (Suc (Suc 0)))" using assms by (simp add: e_def)
  then obtain a b c d where "e = [a, b, c, d]"
    by (auto simp: length_Suc_conv)
  then show ?thesis using that by (simp add: e_def)
qed

lemma ext_test:
  assumes "4 < length path"
  shows "(let ext = drop (length path - 4) path
          in ext ! 0 = CHR ''.'' \<and> toupper (ext ! 1) = p \<and> toupper (ext ! 2) = q
              \<and> toupper (ext ! 3) = r)
         \<longleftrightarrow> map toupper (drop (length path - 4) path) = [CHR ''.'', p, q, r]"
proof -
  obtain a b c d where e: "drop (length path - 4) path = [a, b, c, d]"
    using assms by (rule four_chars)
  show ?thesis by (simp add: e toupper_dot)
qed

section \<open>The format dispatcher\<close>

text \<open>
  \<^verbatim>\<open>create\<close> tests the last four characters of the path one by one; the test is
  the comparison of the specification.
\<close>

lemma toupper_letters:
  "toupper CHR ''.'' = CHR ''.''" "toupper CHR ''p'' = CHR ''P''" "toupper CHR ''n'' = CHR ''N''"
  "toupper CHR ''g'' = CHR ''G''" "toupper CHR ''r'' = CHR ''R''" "toupper CHR ''a'' = CHR ''A''"
  "toupper CHR ''w'' = CHR ''W''"
  by code_simp+

lemma create_dispatch:
  assumes "assertions_enabled env \<longrightarrow> float_ge maxHeight minHeight"
  shows "create env path width height minHeight maxHeight =
    (if length path \<le> 4 then ([Warn UnrecognizedExtension path], Inr None)
     else if extension_is path ''.png''
       then create_png env path minHeight (fsub maxHeight minHeight)
     else if extension_is path ''.raw''
       then create_raw env path width height minHeight maxHeight (fsub maxHeight minHeight)
     else ([Warn UnsupportedImageFormat path], Inr None))"
proof (cases "length path \<le> 4")
  case True
  then show ?thesis using assms by (auto simp add: create_def)
next
  case False
  then have l: "4 < length path" by simp
  have png: "extension_is path ''.png'' \<longleftrightarrow>
      (let ext = drop (length path - 4) path
       in ext ! 0 = CHR ''.'' \<and> toupper (ext ! 1) = CHR ''P'' \<and> toupper (ext ! 2) = CHR ''N''
          \<and> toupper (ext ! 3) = CHR ''G'')"
    unfolding ext_test [OF l] by (simp add: extension_is_def l toupper_letters)
  have raw: "extension_is path ''.raw'' \<longleftrightarrow>
      (let ext = drop (length path - 4) path
       in ext ! 0 = CHR ''.'' \<and> toupper (ext ! 1) = CHR ''R'' \<and> toupper (ext ! 2) = CHR ''A''
          \<and> toupper (ext ! 3) = CHR ''W'')"
    unfolding ext_test [OF l] by (simp add: extension_is_def l toupper_letters)
  show ?thesis
    using assms False unfolding png raw by (auto simp add: create_def Let_def)
qed

lemma png_not_raw: "map toupper ''.raw'' \<noteq> map toupper ''.png''"
  by code_simp

lemma raw_not_png: "extension_is path ''.raw'' \<Longrightarrow> \<not> extension_is path ''.png''"
  using png_not_raw unfolding extension_is_def by metis


lemma ext_examples:
  "extension_is ''a.png'' ''.png''" "extension_is ''x.PnG'' ''.png''"
  "extension_is ''t.raw'' ''.raw''" "extension_is ''T.RAW'' ''.raw''"
  "\<not> extension_is ''t.jpg'' ''.png''" "\<not> extension_is ''t.jpg'' ''.raw''"
  "\<not> extension_is ''apng'' ''.png''"
  by code_simp+


section \<open>The image loader\<close>

lemma image_height_cell:
  fixes w :: uint
  assumes r: "r < H" and k: "k < unat w" and ps: "ps = 3 \<or> ps = 4"
    and len: "length data = unat w * H * ps" and small: "unat w * H * ps < 2 ^ 31"
  shows "image_height data (word_of_nat ps) minHeight heightScale w (word_of_nat r) (word_of_nat k)
           = Inr (pixel_height data ps minHeight heightScale (unat w) r k)"
proof -
  let ?idx = "(word_of_nat r * w + word_of_nat k) * word_of_nat ps :: uint"
  have j: "0 < ps" "1 < ps" "2 < ps" using ps by auto
  have i0: "unat (?idx + word_of_nat 0) = (r * unat w + k) * ps + 0"
    and b0: "(r * unat w + k) * ps + 0 < unat w * H * ps"
    using pixel_index [OF r k small j(1)] by blast+
  have i1: "unat (?idx + word_of_nat 1) = (r * unat w + k) * ps + 1"
    and b1: "(r * unat w + k) * ps + 1 < unat w * H * ps"
    using pixel_index [OF r k small j(2)] by blast+
  have i2: "unat (?idx + word_of_nat 2) = (r * unat w + k) * ps + 2"
    and b2: "(r * unat w + k) * ps + 2 < unat w * H * ps"
    using pixel_index [OF r k small j(3)] by blast+
  have ls: "length data < 2 ^ 31" using len small by simp
  have r0: "array_read_int data ?idx = Inr (data ! ((r * unat w + k) * ps))"
    using array_read_int_ok [of ?idx data] i0 b0 len ls by simp
  have r1: "array_read_int data (?idx + 1) = Inr (data ! ((r * unat w + k) * ps + 1))"
    using array_read_int_ok [of "?idx + 1" data] i1 b1 len ls by simp
  have r2: "array_read_int data (?idx + 2) = Inr (data ! ((r * unat w + k) * ps + 2))"
    using array_read_int_ok [of "?idx + 2" data] i2 b2 len ls by simp
  show ?thesis
    unfolding image_height_def Let_def r0 r1 r2
    by (simp add: pixel_height_def normalizedHeightPacked_exact)
qed

lemma fill_grid:
  fixes w h :: uint
  assumes cells: "\<And>r k. r < unat h \<Longrightarrow> k < unat w
                    \<Longrightarrow> cell (word_of_nat r) (word_of_nat k) = Inr (f r k)"
    and small: "unat w * unat h < 2 ^ 31"
    and len: "length heights = unat w * unat h"
  shows "\<exists>i. fill_rows cell w (h - 1) (heights, 0)
           = Inr (concat (map (\<lambda>r. map (f r) [0 ..< unat w]) (rev [0 ..< unat h])), i)"
proof (cases "unat w = 0")
  case True
  then have e: "heights = []" using len by simp
  have c: "concat (map (\<lambda>r. map (f r) [0 ..< unat w]) (rev [0 ..< n])) = []" for n
    using True by simp
  show ?thesis
  proof (cases "sint (h - 1) < 0")
    case True
    then show ?thesis unfolding c e by (simp add: fill_rows_neg)
  next
    case False
    define n where "n = nat (sint (h - 1)) + 1"
    have y: "sint (h - 1) = int n - 1" using False by (simp add: n_def)
    have "fill_rows cell w (h - 1) ([], 0) =
        Inr (take (unat (0 :: cint)) []
               @ concat (map (\<lambda>r. map (f r) [0 ..< unat w]) (rev [0 ..< n]))
               @ drop (unat (0 :: cint) + n * unat w) [],
             0 + word_of_nat (n * unat w))"
    proof (rule fill_rows_result [where f = f and n = n])
      show "cell (word_of_nat r) (word_of_nat k) = Inr (f r k)" if "r < n" "k < unat w" for r k
        using that True by simp
      show "sint (h - 1) = int n - 1" by (rule y)
      show "unat (0 :: cint) + n * unat w \<le> length []" using True by simp
      show "length ([] :: float list) < 2 ^ 31" by simp
    qed
    then show ?thesis unfolding c e by simp
  qed
next
  case False
  then have "unat h \<le> unat w * unat h" by simp
  then have hs: "unat h < 2 ^ 31" using small by (rule order_le_less_trans)
  then have y: "sint (h - 1) = int (unat h) - 1" by (intro rows_visited) simp
  have ls: "length heights < 2 ^ 31" using len small by simp
  have "fill_rows cell w (h - 1) (heights, 0) =
      Inr (take (unat (0 :: cint)) heights
             @ concat (map (\<lambda>r. map (f r) [0 ..< unat w]) (rev [0 ..< unat h]))
             @ drop (unat (0 :: cint) + unat h * unat w) heights,
           0 + word_of_nat (unat h * unat w))"
  proof (rule fill_rows_result [where f = f and n = "unat h"])
    show "cell (word_of_nat r) (word_of_nat k) = Inr (f r k)" if "r < unat h" "k < unat w" for r k
      using that by (rule cells)
    show "sint (h - 1) = int (unat h) - 1" by (rule y)
    show "unat (0 :: cint) + unat h * unat w \<le> length heights" by (simp add: len mult.commute)
    show "length heights < 2 ^ 31" by (rule ls)
  qed
  then show ?thesis using len by (simp add: mult.commute)
qed

lemma unat_mult_small:
  fixes w h :: uint
  assumes "unat w * unat h < 2 ^ 32"
  shows "unat (w * h) = unat w * unat h"
  using assms by (simp add: unat_word_ariths)

lemma create_png_grid:
  assumes img: "Image_create env path = Some img"
    and fmt: "img_format img \<noteq> OtherFormat"
    and len: "length (img_data img)
                = unat (img_width img) * unat (img_height img) * channels (img_format img)"
    and small: "length (img_data img) < 2 ^ 31"
  shows "\<exists>heights. create_png env path minHeight heightScale
            = ([CallImageCreate path],
               Inr (Some \<lparr> hf_array = heights, hf_cols = img_width img,
                           hf_rows = img_height img \<rparr>))
          \<and> length heights = unat (img_width img) * unat (img_height img)
          \<and> (\<forall>x < unat (img_width img). \<forall>r < unat (img_height img).
                heights ! (x + r * unat (img_width img))
                  = pixel_height (img_data img) (channels (img_format img)) minHeight heightScale
                      (unat (img_width img)) (unat (img_height img) - 1 - r) x)"
proof -
  let ?W = "unat (img_width img)" and ?H = "unat (img_height img)"
  let ?ps = "channels (img_format img)"
  have ps: "?ps = 3 \<or> ?ps = 4" using fmt by (cases "img_format img") simp_all
  have psw: "(case img_format img of RGB \<Rightarrow> Some 3 | RGBA \<Rightarrow> Some 4 | OtherFormat \<Rightarrow> None)
      = Some (word_of_nat ?ps :: uint)"
    using fmt by (cases "img_format img") simp_all
  have small': "?W * ?H * ?ps < 2 ^ 31" using len small by simp
  have "?W * ?H * 1 \<le> ?W * ?H * ?ps" using ps by (intro mult_le_mono2) auto
  then have "?W * ?H \<le> ?W * ?H * ?ps" by simp
  then have wh: "?W * ?H < 2 ^ 31" using small' by (rule order_le_less_trans)
  then have wh32: "?W * ?H < 2 ^ 32" by simp
  have alloc: "unat (img_width img * img_height img) = ?W * ?H"
    using wh32 by (rule unat_mult_small)
  let ?h0 = "map (fresh_memory env) [0 ..< ?W * ?H]"
  let ?f = "pixel_height (img_data img) ?ps minHeight heightScale ?W"
  obtain i where loop:
    "fill_rows (image_height (img_data img) (word_of_nat ?ps) minHeight heightScale (img_width img))
       (img_width img) (img_height img - 1) (?h0, 0)
     = Inr (concat (map (\<lambda>r. map (?f r) [0 ..< ?W]) (rev [0 ..< ?H])), i)"
  proof -
    have "\<exists>i. fill_rows
        (image_height (img_data img) (word_of_nat ?ps) minHeight heightScale (img_width img))
        (img_width img) (img_height img - 1) (?h0, 0)
      = Inr (concat (map (\<lambda>r. map (?f r) [0 ..< ?W]) (rev [0 ..< ?H])), i)"
    proof (rule fill_grid)
      show "image_height (img_data img) (word_of_nat ?ps) minHeight heightScale (img_width img)
          (word_of_nat r) (word_of_nat k) = Inr (?f r k)" if "r < ?H" "k < ?W" for r k
        using that ps len small' by (intro image_height_cell) auto
      show "?W * ?H < 2 ^ 31" by (rule wh)
      show "length ?h0 = ?W * ?H" by simp
    qed
    then show ?thesis using that by blast
  qed
  let ?hs = "concat (map (\<lambda>r. map (?f r) [0 ..< ?W]) (rev [0 ..< ?H]))"
  have res: "create_png env path minHeight heightScale
      = ([CallImageCreate path],
         Inr (Some \<lparr> hf_array = ?hs, hf_cols = img_width img, hf_rows = img_height img \<rparr>))"
    unfolding create_png_def img option.case psw Let_def getArray_def HeightField_new_def
      HeightField.select_convs alloc loop
    by simp
  have l: "length ?hs = ?W * ?H" by (simp add: filled_length mult.commute)
  have c: "?hs ! (x + r * ?W) = ?f (?H - 1 - r) x" if "x < ?W" "r < ?H" for x r
    using that by (simp add: filled_cell)
  show ?thesis using res l c by blast
qed

lemma huge_first_pixel:
  "image_height (replicate 3221225472 0) 3 minHeight heightScale 32768 32767 0
     = Inl OutOfBoundsRead"
  by (simp add: image_height_def array_read_int_def)

lemma huge_loop:
  "fill_rows (image_height (replicate 3221225472 0) 3 minHeight heightScale 32768) 32768 32767
     (hs, 0) = Inl OutOfBoundsRead"
proof -
  have "fill_row (image_height (replicate 3221225472 0) 3 minHeight heightScale 32768) 32768
      32767 0 (hs, 0) = Inl OutOfBoundsRead"
    by (simp add: fill_row.simps [of _ _ _ 0] huge_first_pixel)
  then show ?thesis
    by (simp add: fill_rows.simps [of _ _ 32767] word_sle_eq)
qed

lemma huge_create:
  "create env_huge_image ''a.png'' 0 0 (Finite 0) (Finite 1)
     = ([CallImageCreate ''a.png''], Inl OutOfBoundsRead)"
proof -
  have "create env_huge_image ''a.png'' 0 0 (Finite 0) (Finite 1)
      = create_png env_huge_image ''a.png'' (Finite 0) (fsub (Finite 1) (Finite 0))"
    using ext_examples(1) by (simp add: create_dispatch float_ge_def)
  also have "\<dots> = ([CallImageCreate ''a.png''], Inl OutOfBoundsRead)"
    unfolding create_png_def env_huge_image_def huge_image_def
    by (simp add: Let_def huge_loop)
  finally show ?thesis .
qed

lemma hf_is_grid:
  fixes w h :: uint
  assumes "unat w * unat h < 2 ^ 32" and "length hs = unat w * unat h"
  shows "is_grid \<lparr> hf_array = hs, hf_cols = w, hf_rows = h \<rparr>"
  using assms by (simp add: is_grid_def unat_mult_small)

text \<open>
  For a path ending in \<^verbatim>\<open>.png\<close> and a decoded image of a supported format whose
  pixel data, \<open>width * height * channels\<close> bytes, is shorter than \<open>2\<^sup>3\<^sup>1\<close> bytes, the
  load yields a grid of the image's width and height, and the grid value at column
  \<open>x\<close> of row \<open>r\<close> is \<open>minHeight + normalizedHeightPacked R G B * (maxHeight -
  minHeight)\<close>, in \<^verbatim>\<open>float\<close> arithmetic, for the first three bytes \<open>R\<close>, \<open>G\<close>, \<open>B\<close> of
  the pixel at column \<open>x\<close> of image row \<open>height - 1 - r\<close>.  An image of any other
  format yields no result.
\<close>

lemma create_from_image_below_2GiB:
  assumes contract: "assertions_enabled env \<longrightarrow> float_ge maxHeight minHeight"
    and path: "extension_is path ''.png''"
    and img: "Image_create env path = Some img"
    and len: "img_format img \<noteq> OtherFormat \<Longrightarrow>
        length (img_data img)
          = unat (img_width img) * unat (img_height img) * channels (img_format img)"
    and small: "img_format img \<noteq> OtherFormat \<Longrightarrow> length (img_data img) < 2 ^ 31"
  shows "if img_format img = OtherFormat
         then snd (create env path width height minHeight maxHeight) = Inr None
         else (\<exists>hf. snd (create env path width height minHeight maxHeight) = Inr (Some hf)
                \<and> is_grid hf \<and> hf_cols hf = img_width img \<and> hf_rows hf = img_height img
                \<and> (\<forall>x < unat (img_width img). \<forall>r < unat (img_height img).
                      sample hf x r
                        = pixel_height (img_data img) (channels (img_format img)) minHeight
                            (fsub maxHeight minHeight) (unat (img_width img))
                            (unat (img_height img) - 1 - r) x))"
proof -
  have l: "\<not> length path \<le> 4" using path by (simp add: extension_is_def)
  have d: "create env path width height minHeight maxHeight
      = create_png env path minHeight (fsub maxHeight minHeight)"
    using path l by (simp add: create_dispatch [OF contract])
  show ?thesis
  proof (cases "img_format img = OtherFormat")
    case True
    then show ?thesis unfolding d by (simp add: create_png_def img)
  next
    case False
    let ?W = "unat (img_width img)" and ?H = "unat (img_height img)"
    obtain heights where r:
      "create_png env path minHeight (fsub maxHeight minHeight)
         = ([CallImageCreate path],
            Inr (Some \<lparr> hf_array = heights, hf_cols = img_width img, hf_rows = img_height img \<rparr>))"
      "length heights = ?W * ?H"
      "\<forall>x < ?W. \<forall>r < ?H. heights ! (x + r * ?W)
          = pixel_height (img_data img) (channels (img_format img)) minHeight
              (fsub maxHeight minHeight) ?W (?H - 1 - r) x"
      using create_png_grid [OF img False len [OF False] small [OF False]] by blast
    have "1 \<le> channels (img_format img)" using False by (cases "img_format img") simp_all
    then have "?W * ?H * 1 \<le> ?W * ?H * channels (img_format img)" by (intro mult_le_mono2)
    then have "?W * ?H \<le> length (img_data img)" using len [OF False] by simp
    then have "?W * ?H < 2 ^ 31" using small [OF False] by (rule order_le_less_trans)
    then have "?W * ?H < 2 ^ 32" by simp
    then have g: "is_grid \<lparr> hf_array = heights, hf_cols = img_width img, hf_rows = img_height img \<rparr>"
      using r(2) by (rule hf_is_grid)
    show ?thesis unfolding d r(1) using False g r(3) by (simp add: sample_def)
  qed
qed

text \<open>
  The image of two by two RGBA pixels, loaded with the range from 0 to 65536: the
  bottom row of the image is row 0 of the grid, and the fourth byte of a pixel is
  ignored.
\<close>

lemma create_from_image_example:
  "\<exists>hf. snd (create env_small_image ''a.png'' 7 7 (Finite 0) (Finite 65536)) = Inr (Some hf)
      \<and> is_grid hf \<and> hf_cols hf = 2 \<and> hf_rows hf = 2
      \<and> sample hf 0 0 = Finite 256 \<and> sample hf 0 1 = Finite 0 \<and> sample hf 1 1 = Finite 1"
proof -
  have c: "assertions_enabled env_small_image \<longrightarrow> float_ge (Finite 65536) (Finite 0)"
    by (simp add: float_ge_def)
  have i: "Image_create env_small_image ''a.png'' = Some small_image"
    by (simp add: env_small_image_def)
  have f: "img_format small_image \<noteq> OtherFormat" by (simp add: small_image_def)
  have l: "length (img_data small_image)
       = unat (img_width small_image) * unat (img_height small_image)
         * channels (img_format small_image)"
    by (simp add: small_image_def)
  have s: "length (img_data small_image) < 2 ^ 31" by (simp add: small_image_def)
  have v: "pixel_height (img_data small_image) 4 (Finite 0) (fsub (Finite 65536) (Finite 0)) 2 1 0
             = Finite 256"
    "pixel_height (img_data small_image) 4 (Finite 0) (fsub (Finite 65536) (Finite 0)) 2 0 0
       = Finite 0"
    "pixel_height (img_data small_image) 4 (Finite 0) (fsub (Finite 65536) (Finite 0)) 2 0 1
       = Finite 1"
    by (simp_all add: pixel_height_def small_image_def normalizedHeightPacked_def
        uchar_to_float_def fsub_def binary32_eval)
  have w: "unat (img_width small_image) = 2" "unat (img_height small_image) = 2"
    "img_width small_image = 2" "img_height small_image = 2"
    "channels (img_format small_image) = 4"
    by (simp_all add: small_image_def)
  from create_from_image_below_2GiB [OF c ext_examples(1) i l s, of 7 7] f
  obtain hf where hf:
    "snd (create env_small_image ''a.png'' 7 7 (Finite 0) (Finite 65536)) = Inr (Some hf)"
    "is_grid hf" "hf_cols hf = 2" "hf_rows hf = 2"
    "\<forall>x < 2. \<forall>r < 2. sample hf x r
        = pixel_height (img_data small_image) 4 (Finite 0) (fsub (Finite 65536) (Finite 0)) 2
            (2 - 1 - r) x"
    unfolding w by auto
  have "sample hf 0 0 = Finite 256" "sample hf 0 1 = Finite 0" "sample hf 1 1 = Finite 1"
    using hf(5) v by simp_all
  then show ?thesis using hf by blast
qed

text \<open>
  With the range from \<^verbatim>\<open>-FLT_MAX\<close> to \<^verbatim>\<open>FLT_MAX\<close> the height scale overflows to
  \<open>\<infinity>\<close>, and a black pixel, whose packed height is 0, gets the height
  \<open>0 * \<infinity>\<close>, a NaN.
\<close>

lemma image_height_range_overflow:
  "fsub (Finite 340282346638528859811704183484516925440)
     (Finite (- 340282346638528859811704183484516925440)) = PosInf"
  "image_height [0, 0, 0] 3 (Finite (- 340282346638528859811704183484516925440)) PosInf 1 0 0
     = Inr NaN"
  by (simp_all add: image_height_def array_read_int_def normalizedHeightPacked_binary32_def
      uchar_to_float_def fsub_def binary32_eval)

text \<open>
  C4.  The claim that every decoded image of a supported format loads fails on the
  code for an image of \<open>2\<^sup>3\<^sup>1\<close> bytes or more: the byte offset
  \<open>(y * w + x) * pixelSize\<close> is stored in an \<^verbatim>\<open>int\<close>.  For 32768 by 32768 RGB pixels
  the first offset, of the last image row, is 3221127168, a negative \<^verbatim>\<open>int\<close>, and
  the read is before the buffer: no grid is produced.
\<close>

theorem create_from_image_index_overflow:
  "Image_create env_huge_image ''a.png'' = Some huge_image
   \<and> img_format huge_image = RGB
   \<and> length (img_data huge_image)
       = unat (img_width huge_image) * unat (img_height huge_image) * 3
   \<and> float_ge (Finite 1) (Finite 0)
   \<and> snd (create env_huge_image ''a.png'' 0 0 (Finite 0) (Finite 1)) = Inl OutOfBoundsRead"
  using huge_create by (simp add: env_huge_image_def huge_image_def float_ge_def)

section \<open>The raw-binary loader\<close>

lemma little_endian:
  fixes lo hi :: uchar
  shows "sint ((ucast lo :: cint) OR push_bit 8 (ucast hi :: cint))
           = int (unat lo + 256 * unat hi)"
proof -
  have "(ucast lo :: cint) AND push_bit 8 (ucast hi :: cint) = 0"
    by (rule bit_eqI) (auto simp add: bit_simps dest: bit_imp_le_length)
  then have o: "(ucast lo :: cint) OR push_bit 8 (ucast hi :: cint)
      = ucast lo + push_bit 8 (ucast hi)"
    by (rule disjunctive_add_eq_or [symmetric])
  have l: "unat lo < 2 ^ 8" using unsigned_less [of lo, where 'a = nat] by simp
  have h: "unat hi < 2 ^ 8" using unsigned_less [of hi, where 'a = nat] by simp
  have "(ucast lo :: cint) + push_bit 8 (ucast hi) = word_of_nat (unat lo + 256 * unat hi)"
    by (simp add: push_bit_eq_mult)
  moreover have b: "unat lo + 256 * unat hi < 2 ^ 31" using l h by simp
  then have "unat lo + 256 * unat hi < 2 ^ 32" by simp
  ultimately have u: "unat ((ucast lo :: cint) + push_bit 8 (ucast hi)) = unat lo + 256 * unat hi"
    by (simp only: unat_word_of_nat_small)
  have "unat ((ucast lo :: cint) + push_bit 8 (ucast hi)) < 2 ^ 31" using b by (simp only: u)
  then have "sint ((ucast lo :: cint) + push_bit 8 (ucast hi))
      = int (unat ((ucast lo :: cint) + push_bit 8 (ucast hi)))"
    by (rule sint_small)
  then show ?thesis by (simp only: o u)
qed

lemma int_to_float_little_endian:
  fixes lo hi :: uchar
  shows "int_to_float ((ucast lo :: cint) OR push_bit 8 (ucast hi :: cint))
           = Finite (real (unat lo + 256 * unat hi))"
proof -
  have l: "unat lo < 2 ^ 8" using unsigned_less [of lo, where 'a = nat] by simp
  have h: "unat hi < 2 ^ 8" using unsigned_less [of hi, where 'a = nat] by simp
  have "unat lo + 256 * unat hi < 2 ^ 24" using l h by simp
  then have "round_to_binary32 (real (unat lo + 256 * unat hi))
      = Finite (real (unat lo + 256 * unat hi))"
    by (rule round_to_binary32_nat)
  then show ?thesis
    unfolding int_to_float_def little_endian by (simp only: of_int_of_nat_eq)
qed

lemma cell_offset:
  fixes w :: uint
  assumes r: "r < H" and k: "k < unat w" and b: "unat w * H < 2 ^ 32"
  shows "unat (word_of_nat r * w + word_of_nat k :: uint) = r * unat w + k"
    and "r * unat w + k < unat w * H"
proof -
  have "Suc r * unat w \<le> H * unat w" using r by (intro mult_le_mono1) simp
  then show lt: "r * unat w + k < unat w * H" using k by (simp add: mult.commute)
  have "word_of_nat r * w + word_of_nat k = (word_of_nat (r * unat w + k) :: uint)" by simp
  moreover have "r * unat w + k < 2 ^ 32" using lt b by simp
  ultimately show "unat (word_of_nat r * w + word_of_nat k :: uint) = r * unat w + k"
    by (simp only: unat_word_of_nat_small)
qed

lemma raw8_height_cell:
  fixes w :: uint
  assumes r: "r < H" and k: "k < unat w" and b: "unat w * H < 2 ^ 32"
    and len: "unat w * H \<le> length bytes"
  shows "raw8_height bytes minHeight heightScale w (word_of_nat r) (word_of_nat k)
           = Inr (raw8_sample bytes minHeight heightScale (unat w) r k)"
  using cell_offset [OF r k b] len
  by (simp add: raw8_height_def array_read_def raw8_sample_def)

lemma raw16_height_cell:
  fixes w :: uint
  assumes r: "r < H" and k: "k < unat w"
    and len: "2 * (unat w * H) \<le> length bytes" and small: "length bytes < 2 ^ 31"
  shows "raw16_height bytes minHeight heightScale w (word_of_nat r) (word_of_nat k)
           = Inr (raw16_sample bytes minHeight heightScale (unat w) r k)"
proof -
  let ?j = "r * unat w + k"
  let ?idx = "push_bit 1 (word_of_nat r * w + word_of_nat k) :: uint"
  have b: "unat w * H < 2 ^ 32" using len small by simp
  have lt: "?j < unat w * H" using cell_offset(2) [OF r k b] .
  have lt2: "2 * ?j + 1 < length bytes" using lt len by simp
  have e0: "?idx = word_of_nat (2 * ?j)" by (simp add: push_bit_eq_mult)
  have e1: "?idx + 1 = word_of_nat (2 * ?j + 1)" by (simp add: push_bit_eq_mult)
  have s0: "2 * ?j < 2 ^ 32" and s1: "2 * ?j + 1 < 2 ^ 32" using lt2 small by simp_all
  have u0: "unat ?idx = 2 * ?j" using s0 by (simp only: e0 unat_word_of_nat_small)
  have u1: "unat (?idx + 1) = 2 * ?j + 1" using s1 by (simp only: e1 unat_word_of_nat_small)
  have r0: "array_read_int bytes ?idx = Inr (bytes ! (2 * ?j))"
    using array_read_int_ok [of ?idx bytes] u0 lt2 small by simp
  have r1: "array_read_int bytes (?idx + 1) = Inr (bytes ! (2 * ?j + 1))"
    using array_read_int_ok [of "?idx + 1" bytes] u1 lt2 small by simp
  show ?thesis
    unfolding raw16_height_def Let_def r0 r1 sum.case int_to_float_little_endian raw16_sample_def
    by simp
qed

lemma raw_bits:
  fixes width height :: uint
  assumes w: "2 \<le> unat width" and h: "2 \<le> unat height"
    and wh: "unat width * unat height < 2 ^ 32" and fs: "n < 2 ^ 31"
  shows "width * height \<noteq> 0"
    and "(word_of_nat n :: cint) div (width * height) * 8 = 8 \<longleftrightarrow> n div (unat width * unat height) = 1"
    and "(word_of_nat n :: cint) div (width * height) * 8 = 16 \<longleftrightarrow> n div (unat width * unat height) = 2"
proof -
  let ?WH = "unat width * unat height"
  have u: "unat (width * height) = ?WH" using wh by (rule unat_mult_small)
  have "2 * 2 \<le> ?WH" using w h by (rule mult_le_mono)
  then have four: "4 \<le> ?WH" by simp
  then have nz: "?WH \<noteq> 0" by linarith
  show "width * height \<noteq> 0"
  proof
    assume "width * height = 0"
    then have "unat (width * height) = 0" by simp
    with u nz show False by simp
  qed
  have "n < 2 ^ 32" using fs by simp
  then have un: "unat (word_of_nat n :: cint) = n" by (rule unat_word_of_nat_small)
  have q: "unat ((word_of_nat n :: cint) div (width * height)) = n div ?WH"
    by (simp only: unat_div u un)
  have "n div ?WH \<le> n div 4" using four by (rule div_le_mono2 [rotated]) simp
  also have "\<dots> < 2 ^ 29" using fs by simp
  finally have "n div ?WH * 8 < 2 ^ 32" by simp
  then have "unat ((word_of_nat n :: cint) div (width * height)) * unat (8 :: cint) < 2 ^ 32"
    unfolding q by simp
  then have "unat ((word_of_nat n :: cint) div (width * height) * 8)
      = unat ((word_of_nat n :: cint) div (width * height)) * unat (8 :: cint)"
    by (rule unat_mult_small)
  then have b: "unat ((word_of_nat n :: cint) div (width * height) * 8) = n div ?WH * 8"
    unfolding q by simp
  have e: "x = y \<longleftrightarrow> unat x = unat y" for x y :: cint by (simp add: word_unat_eq_iff)
  show "(word_of_nat n :: cint) div (width * height) * 8 = 8 \<longleftrightarrow> n div ?WH = 1"
    unfolding e [of _ 8] b by simp
  show "(word_of_nat n :: cint) div (width * height) * 8 = 16 \<longleftrightarrow> n div ?WH = 2"
    unfolding e [of _ 16] b by simp
qed

lemma div_eq_iff_window:
  fixes n m q :: nat
  assumes "0 < m"
  shows "n div m = q \<longleftrightarrow> q * m \<le> n \<and> n < Suc q * m"
proof
  assume e: "n div m = q"
  have "n div m * m \<le> n" by simp
  moreover have "n < Suc (n div m) * m"
    using assms dividend_less_div_times [of m n] by (simp add: mult.commute)
  ultimately show "q * m \<le> n \<and> n < Suc q * m" unfolding e by simp
next
  assume "q * m \<le> n \<and> n < Suc q * m"
  then show "n div m = q" by (intro div_nat_eqI) (simp_all add: mult.commute)
qed

lemma div_window:
  fixes n m :: nat
  assumes "0 < m"
  shows "n div m = 1 \<longleftrightarrow> m \<le> n \<and> n < 2 * m"
    and "n div m = 2 \<longleftrightarrow> 2 * m \<le> n \<and> n < 3 * m"
proof -
  have "n div m = 1 \<longleftrightarrow> 1 * m \<le> n \<and> n < Suc 1 * m" using assms by (rule div_eq_iff_window)
  then show "n div m = 1 \<longleftrightarrow> m \<le> n \<and> n < 2 * m" by (simp add: mult_2)
  have "n div m = 2 \<longleftrightarrow> 2 * m \<le> n \<and> n < Suc 2 * m" using assms by (rule div_eq_iff_window)
  moreover have "Suc 2 * m = 3 * m" by simp
  ultimately show "n div m = 2 \<longleftrightarrow> 2 * m \<le> n \<and> n < 3 * m" by (simp only:)
qed

lemma create_raw_result:
  assumes w: "2 \<le> unat width" and h: "2 \<le> unat height"
    and wh: "unat width * unat height < 2 ^ 32"
    and rd: "FileSystem_readAll env path = Some bytes"
    and fs: "length bytes < 2 ^ 31"
  shows "create_raw env path width height minHeight maxHeight heightScale =
    (if float_less maxHeight (Finite 0) then ([Warn InvalidRawParameter path], Inr None)
     else if length bytes div (unat width * unat height) = 1 then
       ([CallReadAll path],
        Inr (Some \<lparr> hf_array = rows_flipped (raw8_sample bytes minHeight heightScale (unat width))
                                  (unat width) (unat height),
                    hf_cols = width, hf_rows = height \<rparr>))
     else if length bytes div (unat width * unat height) = 2 then
       ([CallReadAll path],
        Inr (Some \<lparr> hf_array = rows_flipped (raw16_sample bytes minHeight heightScale (unat width))
                                  (unat width) (unat height),
                    hf_cols = width, hf_rows = height \<rparr>))
     else ([CallReadAll path, Warn InvalidRawFile path], Inr None))"
proof -
  let ?W = "unat width" and ?H = "unat height"
  let ?q = "length bytes div (?W * ?H)"
  let ?bits = "(word_of_nat (length bytes) :: cint) div (width * height) * 8"
  note bits = raw_bits [OF w h wh fs]
  have dims: "\<not> (width < 2 \<or> height < 2)" using w h by (simp add: word_less_nat_alt)
  have pos: "0 < ?W * ?H" using w h by simp
  have alloc: "unat (width * height) = ?W * ?H" using wh by (rule unat_mult_small)
  let ?h0 = "map (fresh_memory env) [0 ..< ?W * ?H]"
  show ?thesis
  proof (cases "float_less maxHeight (Finite 0)")
    case True
    then show ?thesis by (simp add: create_raw_def)
  next
    case False
    note mh = this
    consider (eight) "?q = 1" | (sixteen) "?q = 2" | (other) "?q \<noteq> 1" "?q \<noteq> 2" by blast
    then show ?thesis
    proof cases
      case eight
      then have b8: "?bits = 8" and b16: "?bits \<noteq> 16" using bits(2,3) by simp_all
      have le: "?W * ?H \<le> length bytes" using eight div_window(1) [OF pos, of "length bytes"] by simp
      then have small: "?W * ?H < 2 ^ 31" using fs by (rule order_le_less_trans)
      have "\<exists>i. fill_rows (raw8_height bytes minHeight heightScale width) width (height - 1) (?h0, 0)
          = Inr (concat (map (\<lambda>r. map (raw8_sample bytes minHeight heightScale ?W r) [0 ..< ?W])
                          (rev [0 ..< ?H])), i)"
      proof (rule fill_grid)
        show "raw8_height bytes minHeight heightScale width (word_of_nat r) (word_of_nat k)
            = Inr (raw8_sample bytes minHeight heightScale ?W r k)" if "r < ?H" "k < ?W" for r k
          using that wh le by (intro raw8_height_cell)
        show "?W * ?H < 2 ^ 31" by (rule small)
        show "length ?h0 = ?W * ?H" by simp
      qed
      then obtain i where loop:
        "fill_rows (raw8_height bytes minHeight heightScale width) width (height - 1) (?h0, 0)
          = Inr (rows_flipped (raw8_sample bytes minHeight heightScale ?W) ?W ?H, i)"
        unfolding rows_flipped_def by blast
      show ?thesis
        unfolding create_raw_def rd option.case Let_def getArray_def HeightField_new_def
          HeightField.select_convs alloc b8
        using dims mh bits(1) eight loop by simp
    next
      case sixteen
      then have b16: "?bits = 16" using bits(3) by simp
      have le: "2 * (?W * ?H) \<le> length bytes"
        using sixteen div_window(2) [OF pos, of "length bytes"] by simp
      have "?W * ?H \<le> 2 * (?W * ?H)" by simp
      then have "?W * ?H \<le> length bytes" using le by (rule order_trans)
      then have small: "?W * ?H < 2 ^ 31" using fs by (rule order_le_less_trans)
      have "\<exists>i. fill_rows (raw16_height bytes minHeight heightScale width) width (height - 1) (?h0, 0)
          = Inr (concat (map (\<lambda>r. map (raw16_sample bytes minHeight heightScale ?W r) [0 ..< ?W])
                          (rev [0 ..< ?H])), i)"
      proof (rule fill_grid)
        show "raw16_height bytes minHeight heightScale width (word_of_nat r) (word_of_nat k)
            = Inr (raw16_sample bytes minHeight heightScale ?W r k)" if "r < ?H" "k < ?W" for r k
          using that le fs by (intro raw16_height_cell)
        show "?W * ?H < 2 ^ 31" by (rule small)
        show "length ?h0 = ?W * ?H" by simp
      qed
      then obtain i where loop:
        "fill_rows (raw16_height bytes minHeight heightScale width) width (height - 1) (?h0, 0)
          = Inr (rows_flipped (raw16_sample bytes minHeight heightScale ?W) ?W ?H, i)"
        unfolding rows_flipped_def by blast
      show ?thesis
        unfolding create_raw_def rd option.case Let_def getArray_def HeightField_new_def
          HeightField.select_convs alloc b16
        using dims mh bits(1) sixteen loop by simp
    next
      case other
      then have "?bits \<noteq> 8" "?bits \<noteq> 16" using bits(2,3) by simp_all
      then show ?thesis
        unfolding create_raw_def rd option.case Let_def
        using dims mh bits(1) other by simp
    qed
  qed
qed

lemma upt_2: "[0 ..< 2] = [0, 1]"
  by (simp add: upt_rec)

lemma env_raw_simps:
  "FileSystem_readAll (env_raw bytes) path = Some bytes"
  "assertions_enabled (env_raw bytes) = True"
  "Image_create (env_raw bytes) path = None"
  by (simp_all add: env_raw_def)


lemma float_ge_examples:
  "float_ge (Finite 65535) (Finite 0)" "float_ge (Finite 255) (Finite 0)"
  "float_ge (Finite 100) (Finite 0)" "float_ge (Finite 1) (Finite 0)"
  "float_ge (Finite 0) (Finite 0)"
  by (simp_all add: float_ge_def)

text \<open>
  Rounding in the 8-bit loader: the byte 1 in the range from 0 to 1 gives the
  binary32 value next to \<open>1 / 255\<close>, and the byte 128 in the range from 0 to 100 the
  value \<open>50.19608...\<close> that two roundings leave.
\<close>

lemma raw8_sample_rounds:
  "raw8_sample [1] (Finite 0) (fsub (Finite 1) (Finite 0)) 1 0 0 = Finite (8421505 / 2147483648)"
  "raw8_sample [128] (Finite 0) (fsub (Finite 100) (Finite 0)) 1 0 0 = Finite (6579301 / 131072)"
  by (simp_all add: raw8_sample_def uchar_to_float_def fsub_def binary32_eval)

text \<open>
  C7 (as amended).  For a path ending in \<^verbatim>\<open>.raw\<close>, a width and a height of at
  least 2 whose product fits an \<^verbatim>\<open>unsigned int\<close>, and a readable file of
  \<open>n < 2\<^sup>3\<^sup>1\<close> bytes: the load succeeds exactly when \<open>maxHeight < 0\<close> is false and
  the inferred depth \<open>(n div (width * height)) * 8\<close> is 8 or 16, that is when
  \<open>width * height \<le> n < 3 * width * height\<close>.  From \<open>width * height\<close> bytes on the
  file is decoded as 8-bit samples, from \<open>2 * width * height\<close> bytes on as 16-bit
  little-endian samples, bytes beyond the samples being ignored; every other size,
  \<open>3 * width * height\<close> among them, yields no result.  The heights are the
  \<^verbatim>\<open>float\<close> values of \<open>minHeight + (sample / 255) * (maxHeight - minHeight)\<close> and of
  \<open>minHeight + (sample / 65535) * (maxHeight - minHeight)\<close>.
\<close>

theorem raw_load_by_file_size:
  assumes contract: "assertions_enabled env \<longrightarrow> float_ge maxHeight minHeight"
    and path: "extension_is path ''.raw''"
    and w: "2 \<le> unat width" and h: "2 \<le> unat height"
    and wh: "unat width * unat height < 2 ^ 32"
    and rd: "FileSystem_readAll env path = Some bytes"
    and fs: "length bytes < 2 ^ 31"
  shows "snd (create env path width height minHeight maxHeight) =
    (if \<not> float_less maxHeight (Finite 0) \<and> unat width * unat height \<le> length bytes
          \<and> length bytes < 2 * (unat width * unat height)
     then Inr (Some \<lparr> hf_array = rows_flipped
                        (raw8_sample bytes minHeight (fsub maxHeight minHeight) (unat width))
                        (unat width) (unat height),
                      hf_cols = width, hf_rows = height \<rparr>)
     else if \<not> float_less maxHeight (Finite 0) \<and> 2 * (unat width * unat height) \<le> length bytes
          \<and> length bytes < 3 * (unat width * unat height)
     then Inr (Some \<lparr> hf_array = rows_flipped
                        (raw16_sample bytes minHeight (fsub maxHeight minHeight) (unat width))
                        (unat width) (unat height),
                      hf_cols = width, hf_rows = height \<rparr>)
     else Inr None)"
proof -
  have l: "\<not> length path \<le> 4" using path by (simp add: extension_is_def)
  have np: "\<not> extension_is path ''.png''" using path by (rule raw_not_png)
  have d: "create env path width height minHeight maxHeight
      = create_raw env path width height minHeight maxHeight (fsub maxHeight minHeight)"
    using path l np by (simp add: create_dispatch [OF contract])
  have pos: "0 < unat width * unat height" using w h by simp
  show ?thesis
    unfolding d create_raw_result [OF w h wh rd fs] div_window [OF pos]
    by auto
qed

theorem raw_load_by_file_size_witness:
  "float_ge (Finite 65535) (Finite 0)
   \<and> extension_is ''t.raw'' ''.raw''
   \<and> 2 \<le> unat (2 :: uint) \<and> unat (2 :: uint) * unat (2 :: uint) < 2 ^ 32
   \<and> FileSystem_readAll (env_raw eight_bytes) ''t.raw'' = Some eight_bytes
   \<and> length eight_bytes < 2 ^ 31
   \<and> snd (create (env_raw eight_bytes) ''t.raw'' 2 2 (Finite 0) (Finite 65535))
       = Inr (Some \<lparr> hf_array = [Finite 3, Finite 65535, Finite 1, Finite 2],
                      hf_cols = 2, hf_rows = 2 \<rparr>)"
proof -
  have c: "assertions_enabled (env_raw eight_bytes) \<longrightarrow> float_ge (Finite 65535) (Finite 0)"
    by (simp add: float_ge_def)
  have d: "2 \<le> unat (2 :: uint)" by simp
  have p: "unat (2 :: uint) * unat (2 :: uint) < 2 ^ 32" by simp
  have r: "FileSystem_readAll (env_raw eight_bytes) ''t.raw'' = Some eight_bytes"
    by (rule env_raw_simps)
  have s: "length eight_bytes < 2 ^ 31" by (simp add: eight_bytes_def)
  have v: "rows_flipped (raw16_sample eight_bytes (Finite 0) (fsub (Finite 65535) (Finite 0)) 2) 2 2
      = [Finite 3, Finite 65535, Finite 1, Finite 2]"
    by (simp add: rows_flipped_def upt_2 raw16_sample_def eight_bytes_def fsub_def binary32_eval)
  show ?thesis
    using raw_load_by_file_size [OF c ext_examples(3) d d p r s] ext_examples(3) d p r s
      float_ge_examples(1)
    by (simp add: v) (simp add: eight_bytes_def)
qed

text \<open>
  C7 as stated fails: a file of 5 bytes loads as a 2 by 2 grid of 8-bit samples,
  although 5 is neither \<open>2 * 2\<close> nor \<open>2 * 2 * 2\<close>.  And for a width and height of
  65536 the product is 0 in \<^verbatim>\<open>unsigned int\<close>, so the inference divides by zero
  instead of yielding no result.
\<close>

theorem raw_load_exact_size_counterexample:
  "length five_bytes = 5
   \<and> snd (create (env_raw five_bytes) ''t.raw'' 2 2 (Finite 0) (Finite 255))
       = Inr (Some \<lparr> hf_array = [Finite 102, Finite 153, Finite 0, Finite 51],
                      hf_cols = 2, hf_rows = 2 \<rparr>)
   \<and> snd (create (env_raw five_bytes) ''t.raw'' 65536 65536 (Finite 0) (Finite 255))
       = Inl DivisionByZero"
proof -
  have c: "assertions_enabled (env_raw five_bytes) \<longrightarrow> float_ge (Finite 255) (Finite 0)"
    by (simp add: float_ge_def)
  have l: "length five_bytes = 5" by (simp add: five_bytes_def)
  have d: "create (env_raw five_bytes) ''t.raw'' w h (Finite 0) (Finite 255)
      = create_raw (env_raw five_bytes) ''t.raw'' w h (Finite 0) (Finite 255)
          (fsub (Finite 255) (Finite 0))" for w h
    using ext_examples(3) raw_not_png [OF ext_examples(3)]
    by (simp add: create_dispatch [OF c])
  have v: "rows_flipped (raw8_sample five_bytes (Finite 0) (fsub (Finite 255) (Finite 0)) 2) 2 2
      = [Finite 102, Finite 153, Finite 0, Finite 51]"
    by (simp add: rows_flipped_def upt_2 raw8_sample_def five_bytes_def uchar_to_float_def
        fsub_def binary32_eval)
  have "create_raw (env_raw five_bytes) ''t.raw'' 2 2 (Finite 0) (Finite 255)
          (fsub (Finite 255) (Finite 0))
      = ([CallReadAll ''t.raw''],
         Inr (Some \<lparr> hf_array = [Finite 102, Finite 153, Finite 0, Finite 51],
                     hf_cols = 2, hf_rows = 2 \<rparr>))"
    using create_raw_result [of 2 2 "env_raw five_bytes" "''t.raw''" five_bytes "Finite 0"
        "Finite 255" "fsub (Finite 255) (Finite 0)"]
    by (simp add: env_raw_simps l v)
  moreover have "create_raw (env_raw five_bytes) ''t.raw'' 65536 65536 (Finite 0) (Finite 255)
          (fsub (Finite 255) (Finite 0))
      = ([CallReadAll ''t.raw''], Inl DivisionByZero)"
    by (simp add: create_raw_def env_raw_simps)
  ultimately show ?thesis using l by (simp add: d)
qed

lemma float_ge_not_negative:
  assumes "float_ge minHeight (Finite 0)" and "float_ge maxHeight minHeight"
  shows "\<not> float_less maxHeight (Finite 0)"
  using assms by (cases minHeight; cases maxHeight) (auto simp add: float_ge_def)

text \<open>
  C8.  For a path ending in \<^verbatim>\<open>.raw\<close>, a width and a height of at least 2,
  \<open>0 \<le> minHeight \<le> maxHeight\<close> and a readable file of \<open>width * height\<close> bytes
  (fewer than \<open>2\<^sup>3\<^sup>1\<close>, the file size being an \<^verbatim>\<open>int\<close>) that all have the value
  \<open>v\<close>, the load succeeds and every cell of the grid is
  \<open>minHeight + (v / 255) * (maxHeight - minHeight)\<close>, the \<^verbatim>\<open>float\<close> expression of
  line 157 with its roundings.
\<close>

theorem raw_constant_file:
  assumes lo: "float_ge minHeight (Finite 0)" and hi: "float_ge maxHeight minHeight"
    and path: "extension_is path ''.raw''"
    and w: "2 \<le> unat width" and h: "2 \<le> unat height"
    and rd: "FileSystem_readAll env path = Some bytes"
    and len: "length bytes = unat width * unat height"
    and fs: "length bytes < 2 ^ 31"
    and const: "\<forall>b \<in> set bytes. b = v"
  shows "\<exists>hf. snd (create env path width height minHeight maxHeight) = Inr (Some hf)
           \<and> is_grid hf \<and> hf_cols hf = width \<and> hf_rows hf = height
           \<and> (\<forall>x < unat width. \<forall>y < unat height.
                 sample hf x y
                   = fadd minHeight
                       (fmul (fdiv (Finite (uchar_to_float v)) (Finite 255))
                          (fsub maxHeight minHeight)))"
proof -
  let ?W = "unat width" and ?H = "unat height"
  let ?f = "raw8_sample bytes minHeight (fsub maxHeight minHeight) ?W"
  let ?hf = "\<lparr> hf_array = rows_flipped ?f ?W ?H, hf_cols = width, hf_rows = height \<rparr>"
  have contract: "assertions_enabled env \<longrightarrow> float_ge maxHeight minHeight" using hi by simp
  have l: "\<not> length path \<le> 4" using path by (simp add: extension_is_def)
  have d: "create env path width height minHeight maxHeight
      = create_raw env path width height minHeight maxHeight (fsub maxHeight minHeight)"
    using path l raw_not_png [OF path] by (simp add: create_dispatch [OF contract])
  have wh31: "?W * ?H < 2 ^ 31" using len fs by simp
  then have wh: "?W * ?H < 2 ^ 32" by simp
  have pos: "0 < ?W * ?H" using w h by simp
  then have q: "length bytes div (?W * ?H) = 1" using len by simp
  have mh: "\<not> float_less maxHeight (Finite 0)" using lo hi by (rule float_ge_not_negative)
  have res: "snd (create env path width height minHeight maxHeight) = Inr (Some ?hf)"
    unfolding d create_raw_result [OF w h wh rd fs] using q mh by simp
  have g: "is_grid ?hf"
    using wh by (rule hf_is_grid) (simp add: rows_flipped_def filled_length mult.commute)
  have cellv: "sample ?hf x y
      = fadd minHeight
          (fmul (fdiv (Finite (uchar_to_float v)) (Finite 255)) (fsub maxHeight minHeight))"
    if x: "x < ?W" and y: "y < ?H" for x y
  proof -
    have "sample ?hf x y = ?f (?H - 1 - y) x"
      using x y by (simp add: sample_def rows_flipped_def filled_cell)
    moreover have "(?H - 1 - y) * ?W + x < length bytes"
    proof -
      have "Suc (?H - 1 - y) * ?W \<le> ?H * ?W" using y by (intro mult_le_mono1) simp
      then show ?thesis using x len by (simp add: mult.commute)
    qed
    then have "bytes ! ((?H - 1 - y) * ?W + x) = v" using const by simp
    ultimately show ?thesis by (simp add: raw8_sample_def)
  qed
  show ?thesis using res g cellv by (intro exI [of _ ?hf]) simp
qed

theorem raw_constant_file_witness:
  "float_ge (Finite 0) (Finite 0) \<and> float_ge (Finite 100) (Finite 0)
   \<and> extension_is ''t.raw'' ''.raw''
   \<and> 2 \<le> unat (4 :: uint)
   \<and> FileSystem_readAll (env_raw bytes_4x4) ''t.raw'' = Some bytes_4x4
   \<and> length bytes_4x4 = unat (4 :: uint) * unat (4 :: uint) \<and> length bytes_4x4 < 2 ^ 31
   \<and> set bytes_4x4 = {255}
   \<and> (\<exists>hf. snd (create (env_raw bytes_4x4) ''t.raw'' 4 4 (Finite 0) (Finite 100)) = Inr (Some hf)
          \<and> is_grid hf \<and> hf_cols hf = 4 \<and> hf_rows hf = 4
          \<and> sample hf 0 0 = Finite 100 \<and> sample hf 3 0 = Finite 100
          \<and> sample hf 1 2 = Finite 100 \<and> sample hf 0 3 = Finite 100
          \<and> sample hf 3 3 = Finite 100)"
proof -
  have a: "float_ge (Finite 0) (Finite 0)" "float_ge (Finite 100) (Finite 0)"
    by (rule float_ge_examples)+
  have d: "2 \<le> unat (4 :: uint)" by simp
  have r: "FileSystem_readAll (env_raw bytes_4x4) ''t.raw'' = Some bytes_4x4"
    by (rule env_raw_simps)
  have l: "length bytes_4x4 = unat (4 :: uint) * unat (4 :: uint)" by (simp add: bytes_4x4_def)
  have s: "length bytes_4x4 < 2 ^ 31" by (simp add: bytes_4x4_def)
  have c: "\<forall>b \<in> set bytes_4x4. b = 255" by (simp add: bytes_4x4_def)
  have c': "set bytes_4x4 = {255}" by (simp add: bytes_4x4_def)
  have v: "fadd (Finite 0)
             (fmul (fdiv (Finite (uchar_to_float 255)) (Finite 255))
                (fsub (Finite 100) (Finite 0))) = Finite 100"
    by (simp add: uchar_to_float_def fsub_def binary32_eval)
  obtain hf where hf:
      "snd (create (env_raw bytes_4x4) ''t.raw'' 4 4 (Finite 0) (Finite 100)) = Inr (Some hf)"
      "is_grid hf" "hf_cols hf = 4" "hf_rows hf = 4"
      "\<forall>x < 4. \<forall>y < 4. sample hf x y = Finite 100"
    using raw_constant_file [OF a ext_examples(3) d d r l s c] unfolding v by auto
  have "sample hf 0 0 = Finite 100" "sample hf 3 0 = Finite 100" "sample hf 1 2 = Finite 100"
      "sample hf 0 3 = Finite 100" "sample hf 3 3 = Finite 100"
    using hf(5) by simp_all
  then show ?thesis using hf(1-4) a ext_examples(3) d r l s c' by blast
qed

text \<open>
  C9.  For every call that passes the assertion \<open>maxHeight \<ge> minHeight\<close> (or is made
  with assertions compiled out): a path of at most 4 characters yields no result,
  with a warning and no I/O call in the log; a path whose last four characters are
  \<^verbatim>\<open>.png\<close> up to case goes to the image loader, whatever the width and height;
  one ending in \<^verbatim>\<open>.raw\<close> up to case goes to the raw loader; any other path yields
  no result, again without I/O; and the first of the four characters is a literal
  dot.
\<close>

theorem create_dispatches_on_extension:
  assumes contract: "assertions_enabled env \<longrightarrow> float_ge maxHeight minHeight"
  shows "(length path \<le> 4 \<longrightarrow>
            create env path width height minHeight maxHeight
              = ([Warn UnrecognizedExtension path], Inr None))
    \<and> (extension_is path ''.png'' \<longrightarrow>
            create env path width height minHeight maxHeight
              = create_png env path minHeight (fsub maxHeight minHeight)
          \<and> create env path width height minHeight maxHeight
              = create env path width' height' minHeight maxHeight)
    \<and> (extension_is path ''.raw'' \<longrightarrow>
            create env path width height minHeight maxHeight
              = create_raw env path width height minHeight maxHeight (fsub maxHeight minHeight))
    \<and> (4 < length path \<and> \<not> extension_is path ''.png'' \<and> \<not> extension_is path ''.raw'' \<longrightarrow>
            create env path width height minHeight maxHeight
              = ([Warn UnsupportedImageFormat path], Inr None))
    \<and> (extension_is path ''.png'' \<or> extension_is path ''.raw'' \<longrightarrow>
            path ! (length path - 4) = CHR ''.'')"
proof -
  have dot: "path ! (length path - 4) = CHR ''.''"
    if e: "4 < length path" "map toupper (drop (length path - 4) path) = CHR ''.'' # rest"
    for rest
  proof -
    obtain a b c d where f: "drop (length path - 4) path = [a, b, c, d]"
      using e(1) by (rule four_chars)
    have "a = CHR ''.''" using e(2) by (simp add: f toupper_dot)
    moreover have "path ! (length path - 4) = drop (length path - 4) path ! 0"
      using e(1) by simp
    ultimately show ?thesis by (simp add: f)
  qed
  have dots: "extension_is path ''.png'' \<or> extension_is path ''.raw''
      \<longrightarrow> path ! (length path - 4) = CHR ''.''"
    using dot by (auto simp add: extension_is_def toupper_letters)
  have png: "extension_is path ''.png'' \<Longrightarrow> \<not> length path \<le> 4"
    and raw: "extension_is path ''.raw'' \<Longrightarrow> \<not> length path \<le> 4"
    by (simp_all add: extension_is_def)
  show ?thesis
    using dots png raw raw_not_png [of path]
    by (auto simp add: create_dispatch [OF contract])
qed

theorem create_dispatches_on_extension_witness:
  "float_ge (Finite 1) (Finite 0)
   \<and> length ''a.pn'' \<le> 4
   \<and> create env_small_image ''a.pn'' 3 3 (Finite 0) (Finite 1)
       = ([Warn UnrecognizedExtension ''a.pn''], Inr None)
   \<and> extension_is ''x.PnG'' ''.png''
   \<and> create env_small_image ''x.PnG'' 3 3 (Finite 0) (Finite 1)
       = create_png env_small_image ''x.PnG'' (Finite 0) (fsub (Finite 1) (Finite 0))
   \<and> create env_small_image ''x.PnG'' 3 3 (Finite 0) (Finite 1)
       = create env_small_image ''x.PnG'' 5 8 (Finite 0) (Finite 1)
   \<and> extension_is ''T.RAW'' ''.raw''
   \<and> create env_small_image ''T.RAW'' 3 3 (Finite 0) (Finite 1)
       = create_raw env_small_image ''T.RAW'' 3 3 (Finite 0) (Finite 1)
           (fsub (Finite 1) (Finite 0))
   \<and> 4 < length ''t.jpg'' \<and> \<not> extension_is ''t.jpg'' ''.png'' \<and> \<not> extension_is ''t.jpg'' ''.raw''
   \<and> create env_small_image ''t.jpg'' 3 3 (Finite 0) (Finite 1)
       = ([Warn UnsupportedImageFormat ''t.jpg''], Inr None)
   \<and> ''x.PnG'' ! (length ''x.PnG'' - 4) = CHR ''.''"
proof -
  have c: "assertions_enabled env_small_image \<longrightarrow> float_ge (Finite 1) (Finite 0)"
    by (simp add: float_ge_def)
  have l: "length ''a.pn'' \<le> 4" "4 < length ''t.jpg''" by simp_all
  have 1: "create env_small_image ''a.pn'' 3 3 (Finite 0) (Finite 1)
      = ([Warn UnrecognizedExtension ''a.pn''], Inr None)"
    using create_dispatches_on_extension [OF c, of "''a.pn''" 3 3 5 8] l(1) by (elim conjE) simp
  have 2: "create env_small_image ''x.PnG'' 3 3 (Finite 0) (Finite 1)
        = create_png env_small_image ''x.PnG'' (Finite 0) (fsub (Finite 1) (Finite 0))"
      "create env_small_image ''x.PnG'' 3 3 (Finite 0) (Finite 1)
        = create env_small_image ''x.PnG'' 5 8 (Finite 0) (Finite 1)"
      "''x.PnG'' ! (length ''x.PnG'' - 4) = CHR ''.''"
    using create_dispatches_on_extension [OF c, of "''x.PnG''" 3 3 5 8] ext_examples(2)
    by (elim conjE, simp)+
  have 3: "create env_small_image ''T.RAW'' 3 3 (Finite 0) (Finite 1)
      = create_raw env_small_image ''T.RAW'' 3 3 (Finite 0) (Finite 1)
          (fsub (Finite 1) (Finite 0))"
    using create_dispatches_on_extension [OF c, of "''T.RAW''" 3 3 5 8] ext_examples(4)
    by (elim conjE) simp
  have 4: "create env_small_image ''t.jpg'' 3 3 (Finite 0) (Finite 1)
      = ([Warn UnsupportedImageFormat ''t.jpg''], Inr None)"
    using create_dispatches_on_extension [OF c, of "''t.jpg''" 3 3 5 8] ext_examples(5,6) l(2)
    by (elim conjE) simp
  show ?thesis
    using float_ge_examples(4) l ext_examples(2,4,5,6) 1 2 3 4 by (intro conjI)
qed

end
